theory Spec2Isabelle
  imports Main "HOL-Library.AList" "HOL-Library.Word"
begin

section \<open>Common data\<close>

text \<open>
  A Node \<open>Buffer\<close> is a list of bytes. Times are milliseconds since the epoch
  (\<open>Date.now()\<close>, and a \<open>Date\<close> read through \<open>getTime()\<close>), JavaScript numbers that hold
  counts and sizes are integers. A JavaScript \<open>Map\<close> is an association list in insertion
  order with one entry per key: \<open>Map.get\<close> is \<^const>\<open>map_of\<close>, \<open>Map.set\<close> is
  \<^const>\<open>AList.update\<close> (an existing key keeps its place, a new one goes to the end)
  and \<open>Map.delete\<close> is \<^const>\<open>AList.delete\<close>.
\<close>

type_synonym byte = "8 word"
type_synonym buffer = "byte list"
type_synonym time = int

text \<open>
  A \<open>Date\<close> object holds a time value of at most 8.64e15 milliseconds in absolute value;
  \<open>new Date(v)\<close> with \<open>v\<close> beyond that is an Invalid Date, whose time value is \<open>NaN\<close> and
  for which every comparison is false. A reading of the clock is always in range. The
  numbers of JavaScript are doubles: the sums and products of integers written below are
  exact wherever the result is in the range of \<open>Date\<close>.
\<close>

datatype date = Date time | InvalidDate

definition newDate :: "int \<Rightarrow> date" where
  "newDate v = (if \<bar>v\<bar> \<le> 8640000000000000 then Date v else InvalidDate)"

text \<open>\<open>d < now\<close> for a \<open>Date\<close> object \<open>d\<close> and a reading \<open>now\<close> of the clock.\<close>

definition dateBefore :: "date \<Rightarrow> time \<Rightarrow> bool" where
  "dateBefore d now = (case d of Date v \<Rightarrow> v < now | InvalidDate \<Rightarrow> False)"

section \<open>UrlCipher: \<open>encryptUrl\<close> and \<open>decryptUrl\<close> of auth.js\<close>

subsection \<open>Hexadecimal text, as \<open>Buffer.toString('hex')\<close> and \<open>Buffer.from(s, 'hex')\<close>\<close>

definition hexDigit :: "nat \<Rightarrow> char" where
  "hexDigit n = char_of (if n < 10 then 48 + n else 87 + n)"

definition unhex :: "char \<Rightarrow> nat option" where
  "unhex c =
     (let n = (of_char c :: nat)
      in if 48 \<le> n \<and> n \<le> 57 then Some (n - 48)
         else if 97 \<le> n \<and> n \<le> 102 then Some (n - 87)
         else if 65 \<le> n \<and> n \<le> 70 then Some (n - 55)
         else None)"

fun toHex :: "buffer \<Rightarrow> string" where
  "toHex [] = []"
| "toHex (b # bs) = hexDigit (unat b div 16) # hexDigit (unat b mod 16) # toHex bs"

text \<open>
  Decoding reads two characters at a time, accepts both letter cases and stops at the
  first pair that is not two hexadecimal digits; a trailing single character is dropped.
\<close>

fun fromHex :: "string \<Rightarrow> buffer" where
  "fromHex (a # b # rest) =
     (case (unhex a, unhex b) of
        (Some x, Some y) \<Rightarrow> of_nat (16 * x + y) # fromHex rest
      | _ \<Rightarrow> [])"
| "fromHex _ = []"

subsection \<open>\<open>String.prototype.split\<close> with a one-character separator\<close>

fun split_on :: "char \<Rightarrow> string \<Rightarrow> string list" where
  "split_on sep [] = [[]]"
| "split_on sep (c # cs) =
     (if c = sep then [] # split_on sep cs
      else (case split_on sep cs of
              p # ps \<Rightarrow> (c # p) # ps
            | [] \<Rightarrow> [[c]]))"

subsection \<open>The cipher of Node's \<open>crypto\<close> module\<close>

text \<open>
  The \<open>crypto\<close> module is not part of the repository; the functions of auth.js take it
  as a parameter. \<open>scryptSync secret salt n\<close> is the derived key.
  \<open>gcmEncrypt key iv url\<close> stands for \<open>createCipheriv('aes-256-gcm', key, iv)\<close>,
  \<open>update(url, 'utf8')\<close>, \<open>final()\<close> and \<open>getAuthTag()\<close>: the encrypted bytes and the
  tag. \<open>gcmDecrypt key iv tag bytes\<close> stands for \<open>createDecipheriv\<close>, \<open>setAuthTag\<close>,
  \<open>update\<close> and \<open>final('utf8')\<close>: the decrypted text, or \<open>None\<close> where one of them throws.
\<close>

record node_crypto =
  scryptSync :: "string \<Rightarrow> string \<Rightarrow> nat \<Rightarrow> buffer"
  gcmEncrypt :: "buffer \<Rightarrow> buffer \<Rightarrow> string \<Rightarrow> buffer \<times> buffer"
  gcmDecrypt :: "buffer \<Rightarrow> buffer \<Rightarrow> buffer \<Rightarrow> buffer \<Rightarrow> string option"

record tokenConfig =
  secret :: string
  issuer :: string
  audience :: string
  defaultExpiryMinutes :: int
  maxConcurrentViewers :: int

datatype cipher_error = FailedToDecrypt

text \<open>
  \<open>encryptUrl\<close>: \<open>iv\<close> is the value drawn by \<open>crypto.randomBytes(16)\<close>. The result is
  \<open>iv:authTag:encrypted\<close>, each part in hexadecimal. For a URL that is a string nothing
  inside its \<open>try\<close> block throws.
\<close>

definition encryptUrl :: "node_crypto \<Rightarrow> tokenConfig \<Rightarrow> buffer \<Rightarrow> string \<Rightarrow> string" where
  "encryptUrl C cfg iv url =
     (let key = scryptSync C (secret cfg) ''salt'' 32;
          (encrypted, authTag) = gcmEncrypt C key iv url
      in toHex iv @ '':'' @ toHex authTag @ '':'' @ toHex encrypted)"

text \<open>
  \<open>decryptUrl\<close>: every exception inside the \<open>try\<close> block becomes the one error
  \<open>Failed to decrypt URL - possible tampering\<close>. With fewer than three parts the
  destructured \<open>authTagHex\<close> or \<open>encrypted\<close> is \<open>undefined\<close> and the call that receives
  it throws; parts after the third are ignored. \<open>decipher.update(encrypted, 'hex', ...)\<close>
  throws on a text of odd length.
\<close>

definition decryptUrl :: "node_crypto \<Rightarrow> tokenConfig \<Rightarrow> string \<Rightarrow> cipher_error + string" where
  "decryptUrl C cfg encryptedUrl =
     (let key = scryptSync C (secret cfg) ''salt'' 32
      in case split_on CHR '':'' encryptedUrl of
           ivHex # authTagHex # encrypted # _ \<Rightarrow>
             if odd (length encrypted) then Inl FailedToDecrypt
             else (case gcmDecrypt C key (fromHex ivHex) (fromHex authTagHex) (fromHex encrypted) of
                     Some decrypted \<Rightarrow> Inr decrypted
                   | None \<Rightarrow> Inl FailedToDecrypt)
         | _ \<Rightarrow> Inl FailedToDecrypt)"

section \<open>TokenService and StreamRegistry: auth.js\<close>

record streamData =
  streamId :: string
  originalUrl :: string
  encryptedUrl :: string
  createdAt :: time
  expiresAt :: date
  viewerCount :: int
  maxViewers :: int
  isActive :: bool
  stoppedAt :: "time option"
  tokenJti :: string

record session =
  sessionId :: string
  sessionStreamId :: string
  joinedAt :: time
  lastActivity :: time

record registry =
  activeStreams :: "(string \<times> streamData) list"
  viewerSessions :: "(string \<times> session) list"

subsection \<open>Tokens\<close>

text \<open>
  The \<open>jsonwebtoken\<close> library is not part of the repository. A token is modelled by
  what \<open>jwt.sign\<close> puts into it and \<open>jwt.verify\<close> reads from it: the secret it was
  signed with and its claims. \<open>Malformed\<close> is any string that is not a token.
  \<open>jwt.verify\<close> checks, in this order, the signature, the expiry (in seconds:
  \<open>floor(Date.now() / 1000) >= exp\<close> is expired), the audience and the issuer.
\<close>

record claims =
  claimStreamId :: string
  claimUrl :: string
  iat :: int
  claimType :: string
  exp :: int
  iss :: string
  aud :: string
  jti :: string

datatype token = Signed string claims | Malformed

datatype token_error =
    JwtMalformed
  | InvalidSignature
  | JwtExpired
  | AudienceInvalid
  | IssuerInvalid
  | StreamNotFoundOrExpired
  | StreamStopped
  | TokenRevoked

definition jwt_sign :: "string \<Rightarrow> claims \<Rightarrow> token" where
  "jwt_sign key c = Signed key c"

definition jwt_verify :: "tokenConfig \<Rightarrow> token \<Rightarrow> time \<Rightarrow> token_error + claims" where
  "jwt_verify cfg tok now =
     (case tok of
        Malformed \<Rightarrow> Inl JwtMalformed
      | Signed key c \<Rightarrow>
          if key \<noteq> secret cfg then Inl InvalidSignature
          else if exp c \<le> now div 1000 then Inl JwtExpired
          else if aud c \<noteq> audience cfg then Inl AudienceInvalid
          else if iss c \<noteq> issuer cfg then Inl IssuerInvalid
          else Inr c)"

text \<open>
  The argument of \<open>generateToken\<close>. \<open>payload.streamId || generateStreamId()\<close> and
  \<open>payload.expiryMinutes || default\<close> take the default for a missing field and for a
  falsy one: the empty string, the number 0.
\<close>

record payload =
  payloadStreamId :: "string option"
  payloadOriginalUrl :: string
  payloadExpiryMinutes :: "int option"

text \<open>
  The random values one call of \<open>generateToken\<close> draws: the identifier
  \<open>generateStreamId()\<close> returns, the nonce of \<open>encryptUrl\<close> and the \<open>uuidv4()\<close> that
  becomes the token's \<open>jti\<close>.
\<close>

record draws =
  drawnStreamId :: string
  drawnIv :: buffer
  drawnJti :: string

record issued =
  issuedToken :: token
  issuedStreamId :: string
  issuedExpiresAt :: date

definition chosenStreamId :: "payload \<Rightarrow> draws \<Rightarrow> string" where
  "chosenStreamId p d =
     (case payloadStreamId p of
        Some s \<Rightarrow> if s \<noteq> [] then s else drawnStreamId d
      | None \<Rightarrow> drawnStreamId d)"

definition chosenExpiryMinutes :: "tokenConfig \<Rightarrow> payload \<Rightarrow> int" where
  "chosenExpiryMinutes cfg p =
     (case payloadExpiryMinutes p of
        Some m \<Rightarrow> if m \<noteq> 0 then m else defaultExpiryMinutes cfg
      | None \<Rightarrow> defaultExpiryMinutes cfg)"

text \<open>
  \<open>timespan n iat\<close> is what \<open>jwt.sign\<close> of the \<open>jsonwebtoken\<close> library makes of the
  option \<open>expiresIn: '<n>m'\<close> for a payload with the given \<open>iat\<close>: the \<open>exp\<close> claim, or
  \<open>None\<close> where the text is not a time span the library can read (a number written in
  exponent notation, as JavaScript writes \<open>n\<close> from 1e21 on) and \<open>jwt.sign\<close> throws. The
  library computes it with the \<open>ms\<close> package in double arithmetic; it is not part of the
  repository and is a parameter of \<open>generateToken\<close>.
\<close>

type_synonym jwt_timespan = "int \<Rightarrow> int \<Rightarrow> int option"

datatype generate_error = FailedToGenerateAccessToken

text \<open>
  \<open>generateToken\<close> at time \<open>now\<close>: the reads of the clock inside one call give the same
  value. Where \<open>jwt.sign\<close> throws, the \<open>catch\<close> block throws
  \<open>Failed to generate access token\<close> before anything is stored. Otherwise the record is
  stored with \<open>expiresAt = new Date(Date.now() + expiryMinutes * 60 * 1000)\<close>, an Invalid
  Date when the sum is out of range. The returned \<open>viewerUrl\<close>, a string built from the
  token and the stream id, is left out.
\<close>

definition generateToken ::
  "node_crypto \<Rightarrow> jwt_timespan \<Rightarrow> tokenConfig \<Rightarrow> payload \<Rightarrow> time \<Rightarrow> draws \<Rightarrow> registry \<Rightarrow>
   generate_error + (issued \<times> registry)" where
  "generateToken C timespan cfg p now d st =
     (let sid = chosenStreamId p d;
          expiryMinutes = chosenExpiryMinutes cfg p;
          encrypted = encryptUrl C cfg (drawnIv d) (payloadOriginalUrl p)
      in case timespan expiryMinutes (now div 1000) of
           None \<Rightarrow> Inl FailedToGenerateAccessToken
         | Some expiry \<Rightarrow>
             (let tok = jwt_sign (secret cfg)
                          \<lparr>claimStreamId = sid, claimUrl = encrypted, iat = now div 1000,
                           claimType = ''stream-access'', exp = expiry,
                           iss = issuer cfg, aud = audience cfg, jti = drawnJti d\<rparr>;
                  sd = \<lparr>streamId = sid, originalUrl = payloadOriginalUrl p,
                        encryptedUrl = encrypted, createdAt = now,
                        expiresAt = newDate (now + expiryMinutes * 60 * 1000),
                        viewerCount = 0, maxViewers = maxConcurrentViewers cfg,
                        isActive = True, stoppedAt = None, tokenJti = drawnJti d\<rparr>
              in Inr (\<lparr>issuedToken = tok, issuedStreamId = sid, issuedExpiresAt = expiresAt sd\<rparr>,
                      st\<lparr>activeStreams := AList.update sid sd (activeStreams st)\<rparr>)))"

text \<open>
  \<open>validateToken\<close>: \<open>Inr\<close> is \<open>{valid: true, decoded, streamData}\<close>, \<open>Inl\<close> is
  \<open>{valid: false, error}\<close>. It does not change the registry.
\<close>

definition validateToken ::
  "tokenConfig \<Rightarrow> token \<Rightarrow> time \<Rightarrow> registry \<Rightarrow> token_error + (claims \<times> streamData)" where
  "validateToken cfg tok now st =
     (case jwt_verify cfg tok now of
        Inl e \<Rightarrow> Inl e
      | Inr decoded \<Rightarrow>
          (case map_of (activeStreams st) (claimStreamId decoded) of
             None \<Rightarrow> Inl StreamNotFoundOrExpired
           | Some sd \<Rightarrow>
               if \<not> isActive sd then Inl StreamStopped
               else if jti decoded \<noteq> tokenJti sd then Inl TokenRevoked
               else Inr (decoded, sd)))"

definition valid :: "token_error + (claims \<times> streamData) \<Rightarrow> bool" where
  "valid r = (case r of Inr _ \<Rightarrow> True | Inl _ \<Rightarrow> False)"

subsection \<open>Viewers\<close>

datatype viewer_error = StreamNotFound | MaximumViewerLimitReached

text \<open>
  \<open>registerViewer\<close>: \<open>sid\<close> is the \<open>sessionId\<close> argument, \<open>None\<close> when the caller
  leaves it out; \<open>uuid\<close> is the value \<open>uuidv4()\<close> then supplies.
\<close>

definition registerViewer ::
  "string \<Rightarrow> string option \<Rightarrow> string \<Rightarrow> time \<Rightarrow> registry \<Rightarrow> viewer_error + (session \<times> registry)" where
  "registerViewer stream sid uuid now st =
     (case map_of (activeStreams st) stream of
        None \<Rightarrow> Inl StreamNotFound
      | Some sd \<Rightarrow>
          if maxViewers sd \<le> viewerCount sd then Inl MaximumViewerLimitReached
          else
            (let sd' = sd\<lparr>viewerCount := viewerCount sd + 1\<rparr>;
                 sessId = (case sid of Some s \<Rightarrow> s | None \<Rightarrow> uuid);
                 sess = \<lparr>sessionId = sessId, sessionStreamId = stream,
                         joinedAt = now, lastActivity = now\<rparr>
             in Inr (sess,
                     st\<lparr>viewerSessions := AList.update sessId sess (viewerSessions st),
                        activeStreams := AList.update stream sd' (activeStreams st)\<rparr>)))"

definition removeViewer :: "string \<Rightarrow> registry \<Rightarrow> registry" where
  "removeViewer sessId st =
     (case map_of (viewerSessions st) sessId of
        None \<Rightarrow> st
      | Some sess \<Rightarrow>
          (let st' = (case map_of (activeStreams st) (sessionStreamId sess) of
                        None \<Rightarrow> st
                      | Some sd \<Rightarrow>
                          st\<lparr>activeStreams :=
                               AList.update (sessionStreamId sess)
                                 (sd\<lparr>viewerCount := max 0 (viewerCount sd - 1)\<rparr>)
                                 (activeStreams st)\<rparr>)
           in st'\<lparr>viewerSessions := AList.delete sessId (viewerSessions st')\<rparr>))"

subsection \<open>Stopping, statistics and the reaper\<close>

text \<open>
  \<open>stopStream\<close>: \<open>uuid\<close> is the fresh \<open>uuidv4()\<close> that replaces the record's
  \<open>tokenJti\<close>. The record object is shared with the map, so the assignment after
  \<open>activeStreams.set\<close> changes the stored record too. The boolean is \<open>success\<close>.
\<close>

definition stopStream :: "string \<Rightarrow> string \<Rightarrow> time \<Rightarrow> registry \<Rightarrow> bool \<times> registry" where
  "stopStream stream uuid now st =
     (case map_of (activeStreams st) stream of
        Some sd \<Rightarrow>
          (True,
           st\<lparr>activeStreams :=
                AList.update stream
                  (sd\<lparr>isActive := False, stoppedAt := Some now, tokenJti := uuid\<rparr>)
                  (activeStreams st)\<rparr>)
      | None \<Rightarrow> (False, st))"



text \<open>
  \<open>cleanupExpiredStreams\<close>: the outer loop visits the entries of \<open>activeStreams\<close>; an
  entry that has expired or is not active loses its sessions and is deleted. The first
  argument of \<open>cleanupLoop\<close> is the part of the iteration still to come, the last one
  is \<open>cleanedCount\<close>.
\<close>

fun cleanupLoop ::
  "(string \<times> streamData) list \<Rightarrow> time \<Rightarrow> registry \<Rightarrow> nat \<Rightarrow> nat \<times> registry" where
  "cleanupLoop [] now st cleaned = (cleaned, st)"
| "cleanupLoop ((stream, sd) # rest) now st cleaned =
     (if dateBefore (expiresAt sd) now \<or> \<not> isActive sd
      then cleanupLoop rest now
             (st\<lparr>viewerSessions :=
                   filter (\<lambda>(sessId, sess). sessionStreamId sess \<noteq> stream) (viewerSessions st),
                 activeStreams := AList.delete stream (activeStreams st)\<rparr>)
             (cleaned + 1)
      else cleanupLoop rest now st cleaned)"

definition cleanupExpiredStreams :: "time \<Rightarrow> registry \<Rightarrow> nat \<times> registry" where
  "cleanupExpiredStreams now st = cleanupLoop (activeStreams st) now st 0"

subsection \<open>Sequences of calls\<close>

text \<open>
  The calls of the module that change the registry, with the arguments and the random
  values of each call. A \<open>generateToken\<close> or \<open>registerViewer\<close> that throws leaves the
  registry as it was.
  \<open>validateToken\<close> and \<open>getStreamStats\<close> only read.
\<close>

datatype registry_op =
    GenerateToken payload time draws
  | StopStream string string time
  | RegisterViewer string "string option" string time
  | RemoveViewer string
  | CleanupExpiredStreams time

fun apply_op ::
  "node_crypto \<Rightarrow> jwt_timespan \<Rightarrow> tokenConfig \<Rightarrow> registry_op \<Rightarrow> registry \<Rightarrow> registry" where
  "apply_op C timespan cfg (GenerateToken p now d) st =
     (case generateToken C timespan cfg p now d st of Inl e \<Rightarrow> st | Inr (res, st') \<Rightarrow> st')"
| "apply_op C timespan cfg (StopStream stream uuid now) st = snd (stopStream stream uuid now st)"
| "apply_op C timespan cfg (RegisterViewer stream sid uuid now) st =
     (case registerViewer stream sid uuid now st of Inl e \<Rightarrow> st | Inr (sess, st') \<Rightarrow> st')"
| "apply_op C timespan cfg (RemoveViewer sessId) st = removeViewer sessId st"
| "apply_op C timespan cfg (CleanupExpiredStreams now) st = snd (cleanupExpiredStreams now st)"

definition viewerCountInBounds :: "registry \<Rightarrow> bool" where
  "viewerCountInBounds st =
     list_all (\<lambda>(stream, sd). 0 \<le> viewerCount sd \<and> viewerCount sd \<le> maxViewers sd)
       (activeStreams st)"


fun drawsJti :: "string \<Rightarrow> registry_op \<Rightarrow> bool" where
  "drawsJti j (GenerateToken p now d) = (drawnJti d = j)"
| "drawsJti j op = False"

definition refusedAt :: "string \<Rightarrow> string \<Rightarrow> registry \<Rightarrow> bool" where
  "refusedAt stream j st =
     (case map_of (activeStreams st) stream of
        None \<Rightarrow> True
      | Some sd \<Rightarrow> \<not> isActive sd \<or> tokenJti sd \<noteq> j)"


section \<open>SegmentCache: \<open>cacheSegment\<close> of the stream proxy\<close>

record cacheEntry =
  data :: buffer
  timestamp :: time

text \<open>The two module variables \<open>segmentCache\<close> and \<open>currentCacheSize\<close>.\<close>

record proxyCache =
  segmentCache :: "(string \<times> cacheEntry) list"
  currentCacheSize :: int

definition CACHE_MAX_SIZE :: int where
  "CACHE_MAX_SIZE = 50 * 1024 * 1024"

text \<open>
  The \<open>while\<close> loop of \<open>cacheSegment\<close> for a payload of \<open>len\<close> bytes: as long as the
  counter plus \<open>len\<close> is above the ceiling and the map is not empty, the first key of the
  map is deleted and the length of its entry is taken off the counter.
\<close>

function evictLoop ::
  "nat \<Rightarrow> (string \<times> cacheEntry) list \<Rightarrow> int \<Rightarrow> (string \<times> cacheEntry) list \<times> int" where
  "evictLoop len [] current = ([], current)"
| "evictLoop len ((oldestKey, oldestEntry) # rest) current =
     (if CACHE_MAX_SIZE < current + int len
      then evictLoop len (AList.delete oldestKey ((oldestKey, oldestEntry) # rest))
             (current - int (length (data oldestEntry)))
      else ((oldestKey, oldestEntry) # rest, current))"
  by pat_completeness auto
termination
  by (relation "measure (\<lambda>(len, entries, current). length entries)")
     (auto simp: le_imp_less_Suc length_delete_le)

definition cacheSegment :: "string \<Rightarrow> buffer \<Rightarrow> time \<Rightarrow> proxyCache \<Rightarrow> proxyCache" where
  "cacheSegment key bytes now st =
     (let (entries, current) = evictLoop (length bytes) (segmentCache st) (currentCacheSize st)
      in \<lparr>segmentCache = AList.update key \<lparr>data = bytes, timestamp = now\<rparr> entries,
          currentCacheSize = current + int (length bytes)\<rparr>)"

text \<open>The bytes resident in the cache: the lengths of the stored entries, summed.\<close>

definition cachedBytes :: "(string \<times> cacheEntry) list \<Rightarrow> int" where
  "cachedBytes entries = sum_list (map (\<lambda>(key, entry). int (length (data entry))) entries)"

definition emptyCache :: proxyCache where
  "emptyCache = \<lparr>segmentCache = [], currentCacheSize = 0\<rparr>"

section \<open>ManifestRewriter: \<open>rewriteManifestUrls\<close> of the stream proxy\<close>

subsection \<open>JavaScript string operations\<close>

text \<open>
  Playlist text is a list of characters with codes below 256. \<open>trim\<close> removes the
  white space and line terminators of JavaScript in that range from both ends.
\<close>

definition isWhiteSpace :: "char \<Rightarrow> bool" where
  "isWhiteSpace c = ((of_char c :: nat) \<in> {9, 10, 11, 12, 13, 32, 160})"

definition trim :: "string \<Rightarrow> string" where
  "trim s = rev (dropWhile isWhiteSpace (rev (dropWhile isWhiteSpace s)))"

definition startsWith :: "string \<Rightarrow> string \<Rightarrow> bool" where
  "startsWith s p = (take (length p) s = p)"

definition endsWith :: "string \<Rightarrow> string \<Rightarrow> bool" where
  "endsWith s p = (length p \<le> length s \<and> drop (length s - length p) s = p)"

fun includes_text :: "string \<Rightarrow> string \<Rightarrow> bool" where
  "includes_text [] p = (p = [])"
| "includes_text (c # cs) p = (startsWith (c # cs) p \<or> includes_text cs p)"

fun indexOf :: "string \<Rightarrow> string \<Rightarrow> nat option" where
  "indexOf [] p = (if p = [] then Some 0 else None)"
| "indexOf (c # cs) p =
     (if startsWith (c # cs) p then Some 0 else map_option Suc (indexOf cs p))"

fun joinLines :: "string list \<Rightarrow> string" where
  "joinLines [] = []"
| "joinLines [l] = l"
| "joinLines (l # ls) = l @ CHR 0x0A # joinLines ls"

text \<open>
  The match of \<open>/URI="([^"]+)"/\<close>, its first group: at the leftmost place where
  \<open>URI="\<close> is followed by at least one character other than a double quote and then by
  a double quote, the characters in between.
\<close>

fun matchUri :: "string \<Rightarrow> string option" where
  "matchUri [] = None"
| "matchUri (c # cs) =
     (if startsWith (c # cs) (''URI='' @ [CHR 0x22])
      then (let rest = drop 5 (c # cs);
                inner = takeWhile (\<lambda>x. x \<noteq> CHR 0x22) rest
            in if inner \<noteq> [] \<and> length inner < length rest then Some inner else matchUri cs)
      else matchUri cs)"

text \<open>
  \<open>String.prototype.replace\<close> with a string pattern: the first occurrence is replaced,
  and in the replacement text \<open>$$\<close> stands for a dollar sign, \<open>$&\<close> for the match, \<open>$`\<close>
  for the text before it and \<open>$'\<close> for the text after it.
\<close>

fun getSubstitution :: "string \<Rightarrow> string \<Rightarrow> nat \<Rightarrow> string \<Rightarrow> string" where
  "getSubstitution matched str position (d # x # rest) =
     (if d = CHR ''$'' \<and> x = CHR ''$'' then CHR ''$'' # getSubstitution matched str position rest
      else if d = CHR ''$'' \<and> x = CHR ''&'' then matched @ getSubstitution matched str position rest
      else if d = CHR ''$'' \<and> x = CHR 0x60
        then take position str @ getSubstitution matched str position rest
      else if d = CHR ''$'' \<and> x = CHR 0x27
        then drop (position + length matched) str @ getSubstitution matched str position rest
      else d # getSubstitution matched str position (x # rest))"
| "getSubstitution matched str position rest = rest"

definition replaceFirst :: "string \<Rightarrow> string \<Rightarrow> string \<Rightarrow> string" where
  "replaceFirst str pattern replacement =
     (case indexOf str pattern of
        None \<Rightarrow> str
      | Some position \<Rightarrow>
          take position str @ getSubstitution pattern str position replacement
            @ drop (position + length pattern) str)"

text \<open>
  \<open>encodeURIComponent\<close> on characters below 256: letters, digits and
  \<open>- _ . ! ~ * ' ( )\<close> stay, every other character becomes the bytes of its UTF-8
  encoding, each written \<open>%XX\<close> with upper-case digits.
\<close>

definition upperHexDigit :: "nat \<Rightarrow> char" where
  "upperHexDigit n = char_of (if n < 10 then 48 + n else 55 + n)"

definition percentByte :: "nat \<Rightarrow> string" where
  "percentByte n = [CHR ''%'', upperHexDigit (n div 16), upperHexDigit (n mod 16)]"

definition isUnreserved :: "char \<Rightarrow> bool" where
  "isUnreserved c =
     (let n = (of_char c :: nat)
      in (65 \<le> n \<and> n \<le> 90) \<or> (97 \<le> n \<and> n \<le> 122) \<or> (48 \<le> n \<and> n \<le> 57) \<or>
         c \<in> set ''-_.!~*()'' \<or> c = CHR 0x27)"

fun encodeURIComponent :: "string \<Rightarrow> string" where
  "encodeURIComponent [] = []"
| "encodeURIComponent (c # cs) =
     (if isUnreserved c then [c]
      else if (of_char c :: nat) < 128 then percentByte (of_char c)
      else percentByte (192 + of_char c div 64) @ percentByte (128 + of_char c mod 64))
     @ encodeURIComponent cs"

subsection \<open>The rewriter\<close>

text \<open>
  One pass of the loop body for one line. \<open>url_resolve\<close> is \<open>url.resolve\<close> of Node's
  \<open>url\<close> module, which is not part of the repository and is taken as a parameter;
  \<open>iv\<close> is the nonce that \<open>encryptUrl\<close> draws if the line is rewritten. The result is
  the line pushed to \<open>rewritten\<close> and whether \<open>encryptUrl\<close> was called.
\<close>

definition rewriteLine ::
  "node_crypto \<Rightarrow> tokenConfig \<Rightarrow> (string \<Rightarrow> string \<Rightarrow> string) \<Rightarrow> buffer \<Rightarrow>
   string \<Rightarrow> string \<Rightarrow> string \<Rightarrow> string \<times> bool" where
  "rewriteLine C cfg url_resolve iv baseUrl proxyBaseUrl line =
     (let trimmedLine = trim line
      in if trimmedLine = [] \<or>
            (startsWith trimmedLine ''#'' \<and> \<not> startsWith trimmedLine ''#EXT-X-KEY'')
         then (line, False)
         else
           (case (if startsWith trimmedLine ''#EXT-X-KEY'' then matchUri trimmedLine else None) of
              Some uri \<Rightarrow>
                (let keyUrl = url_resolve baseUrl uri;
                     encryptedKeyUrl = encryptUrl C cfg iv keyUrl;
                     proxyKeyUrl = proxyBaseUrl @ ''/key?url='' @ encodeURIComponent encryptedKeyUrl
                 in (replaceFirst line uri proxyKeyUrl, True))
            | None \<Rightarrow>
                if endsWith trimmedLine ''.m3u8''
                then (proxyBaseUrl @ ''/manifest?url='' @
                        encodeURIComponent (encryptUrl C cfg iv (url_resolve baseUrl trimmedLine)),
                      True)
                else if endsWith trimmedLine ''.ts'' \<or> includes_text trimmedLine ''.ts?''
                then (proxyBaseUrl @ ''/segment?url='' @
                        encodeURIComponent (encryptUrl C cfg iv (url_resolve baseUrl trimmedLine)),
                      True)
                else if endsWith trimmedLine ''.mp4'' \<or> endsWith trimmedLine ''.m4s''
                then (proxyBaseUrl @ ''/segment?url='' @
                        encodeURIComponent (encryptUrl C cfg iv (url_resolve baseUrl trimmedLine)),
                      True)
                else (line, False)))"

text \<open>
  The loop over the lines. \<open>randomBytes n\<close> is the value of the \<open>n\<close>-th call of
  \<open>crypto.randomBytes(16)\<close>, \<open>n\<close> counts the calls made so far.
\<close>

fun rewriteLines ::
  "node_crypto \<Rightarrow> tokenConfig \<Rightarrow> (string \<Rightarrow> string \<Rightarrow> string) \<Rightarrow> (nat \<Rightarrow> buffer) \<Rightarrow> nat \<Rightarrow>
   string \<Rightarrow> string \<Rightarrow> string list \<Rightarrow> string list" where
  "rewriteLines C cfg url_resolve randomBytes n baseUrl proxyBaseUrl [] = []"
| "rewriteLines C cfg url_resolve randomBytes n baseUrl proxyBaseUrl (line # lines) =
     (case rewriteLine C cfg url_resolve (randomBytes n) baseUrl proxyBaseUrl line of
        (out, drawn) \<Rightarrow>
          out # rewriteLines C cfg url_resolve randomBytes (if drawn then n + 1 else n)
                  baseUrl proxyBaseUrl lines)"

text \<open>The parameter \<open>encryptedBaseUrl\<close> is not used by the function.\<close>

definition rewriteManifestUrls ::
  "node_crypto \<Rightarrow> tokenConfig \<Rightarrow> (string \<Rightarrow> string \<Rightarrow> string) \<Rightarrow> (nat \<Rightarrow> buffer) \<Rightarrow>
   string \<Rightarrow> string \<Rightarrow> string \<Rightarrow> string \<Rightarrow> string" where
  "rewriteManifestUrls C cfg url_resolve randomBytes manifest baseUrl proxyBaseUrl encryptedBaseUrl =
     joinLines (rewriteLines C cfg url_resolve randomBytes 0 baseUrl proxyBaseUrl
                  (split_on CHR 0x0A manifest))"

section \<open>Values used to exercise the model\<close>

text \<open>The fallback configuration of auth.js, used when \<open>token.json\<close> cannot be read.\<close>

definition fallbackConfig :: tokenConfig where
  "fallbackConfig =
     \<lparr>secret = ''fallback-secret-min-32-characters-long'',
      issuer = ''live-streaming-platform'',
      audience = ''stream-viewers'',
      defaultExpiryMinutes = 120,
      maxConcurrentViewers = 1000\<rparr>"

text \<open>
  A small stand-in for the \<open>crypto\<close> parameter: the bytes are the characters of the
  text and the tag is their sum followed by fifteen zero bytes. Decryption accepts, as
  the GCM decipher of Node does when it is created without \<open>authTagLength\<close>, a tag of 4,
  8 or 12 to 16 bytes that agrees with the first bytes of the tag of the payload, and
  refuses every other tag. It only serves to run the functions above on concrete inputs.
\<close>

definition checksumTag :: "buffer \<Rightarrow> buffer" where
  "checksumTag bytes = sum_list bytes # [0, 0, 0, 0, 0, 0, 0, 0, 0, 0, 0, 0, 0, 0, 0]"

definition checksumCipher :: node_crypto where
  "checksumCipher =
     \<lparr>scryptSync = (\<lambda>password salt n. replicate n 0),
      gcmEncrypt = (\<lambda>key iv url.
         (map (\<lambda>c. of_nat (of_char c)) url, checksumTag (map (\<lambda>c. of_nat (of_char c)) url))),
      gcmDecrypt = (\<lambda>key iv tag bytes.
         if length tag \<in> {4, 8, 12, 13, 14, 15, 16} \<and>
            tag = take (length tag) (checksumTag bytes)
         then Some (map (\<lambda>b. char_of (unat b)) bytes) else None)\<rparr>"

text \<open>
  A stand-in for the \<open>timespan\<close> parameter: the exact sum, which is what the library
  returns as long as \<open>60000 n\<close> stays below \<open>2^53\<close> in absolute value, and \<open>None\<close> from
  1e21 on.
\<close>

definition minutesTimespan :: jwt_timespan where
  "minutesTimespan n issuedAt = (if 10 ^ 21 \<le> \<bar>n\<bar> then None else Some (issuedAt + n * 60))"

definition emptyRegistry :: registry where
  "emptyRegistry = \<lparr>activeStreams = [], viewerSessions = []\<rparr>"

text \<open>A stopped stream with two of its three places taken.\<close>

definition stoppedRecord :: streamData where
  "stoppedRecord =
     \<lparr>streamId = ''s1'', originalUrl = ''https://origin.example/live/index.m3u8'',
      encryptedUrl = [], createdAt = 0, expiresAt = Date 7200000, viewerCount = 2,
      maxViewers = 3, isActive = False, stoppedAt = Some 1000, tokenJti = ''j2''\<rparr>"

definition stoppedRegistry :: registry where
  "stoppedRegistry = \<lparr>activeStreams = [(''s1'', stoppedRecord)], viewerSessions = []\<rparr>"

text \<open>A configuration with room for two viewers, and a stream issued for one minute.\<close>

definition smallConfig :: tokenConfig where
  "smallConfig = fallbackConfig\<lparr>maxConcurrentViewers := 2\<rparr>"

definition minutePayload :: payload where
  "minutePayload =
     \<lparr>payloadStreamId = Some ''s1'',
      payloadOriginalUrl = ''https://origin.example/live/index.m3u8'',
      payloadExpiryMinutes = Some 1\<rparr>"

definition firstDraws :: draws where
  "firstDraws =
     \<lparr>drawnStreamId = ''d1'',
      drawnIv = [7, 7, 7, 7, 7, 7, 7, 7, 7, 7, 7, 7, 7, 7, 7, 7],
      drawnJti = ''j1''\<rparr>"

definition secondDraws :: draws where
  "secondDraws =
     \<lparr>drawnStreamId = ''d2'',
      drawnIv = [9, 9, 9, 9, 9, 9, 9, 9, 9, 9, 9, 9, 9, 9, 9, 9],
      drawnJti = ''j3''\<rparr>"

text \<open>
  What \<open>generateToken\<close> returns and stores for \<open>minutePayload\<close> at time 0 with
  \<open>firstDraws\<close> on the empty registry.
\<close>

definition firstClaims :: claims where
  "firstClaims =
     \<lparr>claimStreamId = ''s1'',
      claimUrl = encryptUrl checksumCipher fallbackConfig (drawnIv firstDraws)
                   ''https://origin.example/live/index.m3u8'',
      iat = 0, claimType = ''stream-access'', exp = 60,
      iss = ''live-streaming-platform'', aud = ''stream-viewers'', jti = ''j1''\<rparr>"

definition firstToken :: token where
  "firstToken = Signed ''fallback-secret-min-32-characters-long'' firstClaims"

definition firstRecord :: streamData where
  "firstRecord =
     \<lparr>streamId = ''s1'', originalUrl = ''https://origin.example/live/index.m3u8'',
      encryptedUrl = encryptUrl checksumCipher fallbackConfig (drawnIv firstDraws)
                       ''https://origin.example/live/index.m3u8'',
      createdAt = 0, expiresAt = Date 60000, viewerCount = 0, maxViewers = 1000,
      isActive = True, stoppedAt = None, tokenJti = ''j1''\<rparr>"

definition firstRegistry :: registry where
  "firstRegistry = \<lparr>activeStreams = [(''s1'', firstRecord)], viewerSessions = []\<rparr>"

definition firstIssued :: issued where
  "firstIssued =
     \<lparr>issuedToken = firstToken, issuedStreamId = ''s1'', issuedExpiresAt = Date 60000\<rparr>"


text \<open>A payload whose expiry, 150000000000 minutes, is beyond the range of \<open>Date\<close>.\<close>

definition farPayload :: payload where
  "farPayload =
     \<lparr>payloadStreamId = Some ''s9'',
      payloadOriginalUrl = ''https://origin.example/live/index.m3u8'',
      payloadExpiryMinutes = Some 150000000000\<rparr>"

text \<open>
  A stand-in for \<open>url.resolve\<close> on a relative path reference: the base URL up to its
  last slash, followed by the reference.
\<close>

definition resolveInDirectory :: "string \<Rightarrow> string \<Rightarrow> string" where
  "resolveInDirectory base reference =
     rev (dropWhile (\<lambda>c. c \<noteq> CHR ''/'') (rev base)) @ reference"

text \<open>
  A master playlist whose variant carries a query string, with an \<open>EXT-X-MAP\<close> tag
  naming an initialisation segment and a media segment with a query string. Its lines:
  \<^verbatim>\<open>#EXTM3U\<close>,
  \<^verbatim>\<open>#EXT-X-STREAM-INF:BANDWIDTH=800000\<close>,
  \<^verbatim>\<open>https://origin.example/live/low.m3u8?token=abc\<close>,
  \<^verbatim>\<open>#EXT-X-MAP:URI="https://origin.example/live/init.mp4"\<close>,
  \<^verbatim>\<open>https://origin.example/live/part1.m4s?v=2\<close>.
\<close>

definition signedPlaylist :: string where
  "signedPlaylist =
     ''#EXTM3U\<newline>#EXT-X-STREAM-INF:BANDWIDTH=800000\<newline>'' @
     ''https://origin.example/live/low.m3u8?token=abc\<newline>'' @
     ''#EXT-X-MAP:URI='' @ [CHR 0x22] @ ''https://origin.example/live/init.mp4'' @ [CHR 0x22] @
     ''\<newline>https://origin.example/live/part1.m4s?v=2''"

section \<open>Properties of the registry\<close>

lemma map_of_update_same: "map_of (AList.update k v al) k = Some v"
  by (simp add: update_conv')

lemma list_all_update:
  "list_all P al \<Longrightarrow> P (k, v) \<Longrightarrow> list_all P (AList.update k v al)"
  by (induct al) auto

lemma list_all_delete: "list_all P al \<Longrightarrow> list_all P (AList.delete k al)"
  by (simp add: AList.delete_eq list_all_iff)

lemma list_all_map_of: "list_all P al \<Longrightarrow> map_of al k = Some v \<Longrightarrow> P (k, v)"
  by (auto simp: list_all_iff dest: map_of_SomeD)

lemma bounds_lookup:
  "viewerCountInBounds st \<Longrightarrow> map_of (activeStreams st) stream = Some sd \<Longrightarrow>
   0 \<le> viewerCount sd \<and> viewerCount sd \<le> maxViewers sd"
  unfolding viewerCountInBounds_def
  by (drule list_all_map_of, assumption) simp

lemma bounds_store:
  "viewerCountInBounds st \<Longrightarrow> 0 \<le> viewerCount sd \<Longrightarrow> viewerCount sd \<le> maxViewers sd \<Longrightarrow>
   viewerCountInBounds (st\<lparr>activeStreams := AList.update stream sd (activeStreams st)\<rparr>)"
  by (simp add: viewerCountInBounds_def list_all_update)

lemma bounds_sessions [simp]:
  "viewerCountInBounds (st\<lparr>viewerSessions := ss\<rparr>) = viewerCountInBounds st"
  by (simp add: viewerCountInBounds_def)

text \<open>What a \<open>generateToken\<close> that returns has returned and stored.\<close>

lemma generateToken_Inr_iff:
  "generateToken C timespan cfg p now d st = Inr (res, st') \<longleftrightarrow>
   (\<exists>e. timespan (chosenExpiryMinutes cfg p) (now div 1000) = Some e \<and>
        res = \<lparr>issuedToken =
                  Signed (secret cfg)
                    \<lparr>claimStreamId = chosenStreamId p d,
                     claimUrl = encryptUrl C cfg (drawnIv d) (payloadOriginalUrl p),
                     iat = now div 1000, claimType = ''stream-access'', exp = e,
                     iss = issuer cfg, aud = audience cfg, jti = drawnJti d\<rparr>,
                issuedStreamId = chosenStreamId p d,
                issuedExpiresAt = newDate (now + chosenExpiryMinutes cfg p * 60 * 1000)\<rparr> \<and>
        st' = st\<lparr>activeStreams :=
                   AList.update (chosenStreamId p d)
                     \<lparr>streamId = chosenStreamId p d, originalUrl = payloadOriginalUrl p,
                      encryptedUrl = encryptUrl C cfg (drawnIv d) (payloadOriginalUrl p),
                      createdAt = now,
                      expiresAt = newDate (now + chosenExpiryMinutes cfg p * 60 * 1000),
                      viewerCount = 0, maxViewers = maxConcurrentViewers cfg,
                      isActive = True, stoppedAt = None, tokenJti = drawnJti d\<rparr>
                     (activeStreams st)\<rparr>)"
  by (auto simp: generateToken_def Let_def jwt_sign_def split: option.splits)

lemma generateToken_Inl_iff:
  "generateToken C timespan cfg p now d st = Inl err \<longleftrightarrow>
   timespan (chosenExpiryMinutes cfg p) (now div 1000) = None"
  by (cases err) (auto simp: generateToken_def Let_def split: option.splits)

lemma generateToken_record:
  assumes "generateToken C timespan cfg p now d st = Inr (res, st')"
  shows "map_of (activeStreams st') (chosenStreamId p d) =
     Some \<lparr>streamId = chosenStreamId p d, originalUrl = payloadOriginalUrl p,
           encryptedUrl = encryptUrl C cfg (drawnIv d) (payloadOriginalUrl p),
           createdAt = now, expiresAt = newDate (now + chosenExpiryMinutes cfg p * 60 * 1000),
           viewerCount = 0, maxViewers = maxConcurrentViewers cfg,
           isActive = True, stoppedAt = None, tokenJti = drawnJti d\<rparr>"
    and "issuedStreamId res = chosenStreamId p d"
    and "viewerSessions st' = viewerSessions st"
  using assms unfolding generateToken_Inr_iff by (auto simp: map_of_update_same)

lemma bounds_generateToken:
  "0 \<le> maxConcurrentViewers cfg \<Longrightarrow> viewerCountInBounds st \<Longrightarrow>
   generateToken C timespan cfg p now d st = Inr (res, st') \<Longrightarrow> viewerCountInBounds st'"
  unfolding generateToken_Inr_iff by (auto simp: bounds_store)

lemma bounds_stopStream:
  assumes "viewerCountInBounds st"
  shows "viewerCountInBounds (snd (stopStream stream uuid now st))"
proof (cases "map_of (activeStreams st) stream")
  case None
  then show ?thesis using assms by (simp add: stopStream_def)
next
  case (Some sd)
  from bounds_lookup [OF assms Some] show ?thesis
    using assms Some by (simp add: stopStream_def bounds_store)
qed

lemma bounds_registerViewer:
  assumes "viewerCountInBounds st" and "registerViewer stream sid uuid now st = Inr (sess, st')"
  shows "viewerCountInBounds st'"
proof (cases "map_of (activeStreams st) stream")
  case None
  then show ?thesis using assms(2) by (simp add: registerViewer_def)
next
  case (Some sd)
  have lt: "viewerCount sd < maxViewers sd"
    using assms(2) Some by (simp add: registerViewer_def split: if_splits)
  have "viewerCountInBounds
          (st\<lparr>activeStreams := AList.update stream (sd\<lparr>viewerCount := viewerCount sd + 1\<rparr>)
                                 (activeStreams st)\<rparr>)"
    using bounds_lookup [OF assms(1) Some] lt by (intro bounds_store [OF assms(1)]) simp_all
  then show ?thesis
    using assms(2) Some lt by (auto simp: registerViewer_def Let_def viewerCountInBounds_def)
qed

lemma bounds_removeViewer:
  assumes "viewerCountInBounds st"
  shows "viewerCountInBounds (removeViewer sessId st)"
proof (cases "map_of (viewerSessions st) sessId")
  case None
  then show ?thesis using assms by (simp add: removeViewer_def)
next
  case sess: (Some sess)
  show ?thesis
  proof (cases "map_of (activeStreams st) (sessionStreamId sess)")
    case None
    then show ?thesis using assms sess by (simp add: removeViewer_def)
  next
    case (Some sd)
    have "viewerCountInBounds
            (st\<lparr>activeStreams :=
                  AList.update (sessionStreamId sess)
                    (sd\<lparr>viewerCount := max 0 (viewerCount sd - 1)\<rparr>) (activeStreams st)\<rparr>)"
      using bounds_lookup [OF assms Some] by (intro bounds_store [OF assms]) simp_all
    then show ?thesis using sess Some by (simp add: removeViewer_def Let_def)
  qed
qed

lemma bounds_cleanupLoop:
  "viewerCountInBounds st \<Longrightarrow> viewerCountInBounds (snd (cleanupLoop todo now st n))"
proof (induction todo arbitrary: st n)
  case Nil
  then show ?case by simp
next
  case (Cons e todo)
  obtain stream sd where e: "e = (stream, sd)" by (cases e)
  let ?st = "st\<lparr>viewerSessions :=
                  filter (\<lambda>(sessId, sess). sessionStreamId sess \<noteq> stream) (viewerSessions st),
                activeStreams := AList.delete stream (activeStreams st)\<rparr>"
  have "viewerCountInBounds ?st"
    using Cons.prems by (simp add: viewerCountInBounds_def list_all_delete)
  with Cons show ?case by (simp add: e)
qed

lemma bounds_apply_op:
  "0 \<le> maxConcurrentViewers cfg \<Longrightarrow> viewerCountInBounds st \<Longrightarrow>
   viewerCountInBounds (apply_op C timespan cfg op st)"
proof (cases op)
  case (GenerateToken p now d)
  assume "0 \<le> maxConcurrentViewers cfg" "viewerCountInBounds st"
  then show ?thesis
    using GenerateToken bounds_generateToken [of cfg st C timespan p now d]
    by (auto split: sum.splits)
next
  case (RegisterViewer stream sid uuid now)
  assume "viewerCountInBounds st"
  then show ?thesis
    using RegisterViewer bounds_registerViewer [of st stream sid uuid now]
    by (auto split: sum.splits)
qed (simp_all add: bounds_stopStream bounds_removeViewer bounds_cleanupLoop
       cleanupExpiredStreams_def)

lemma bounds_fold_apply_op:
  "0 \<le> maxConcurrentViewers cfg \<Longrightarrow> viewerCountInBounds st \<Longrightarrow>
   viewerCountInBounds (fold (apply_op C timespan cfg) ops st)"
  by (induction ops arbitrary: st) (simp_all add: bounds_apply_op)

lemma registerViewer_capacity_iff:
  "registerViewer stream sid uuid now st = Inl MaximumViewerLimitReached \<longleftrightarrow>
   (\<exists>sd. map_of (activeStreams st) stream = Some sd \<and> maxViewers sd \<le> viewerCount sd)"
  by (auto simp: registerViewer_def Let_def split: option.splits)

lemma joins_count:
  "map_of (activeStreams st) stream = Some sd \<Longrightarrow>
   viewerCount sd + int (length js) \<le> maxViewers sd \<Longrightarrow>
   \<exists>sd'. map_of (activeStreams
                   (fold (\<lambda>(sid, uuid, now). apply_op C timespan cfg (RegisterViewer stream sid uuid now)) js st))
              stream = Some sd' \<and>
         viewerCount sd' = viewerCount sd + int (length js) \<and> maxViewers sd' = maxViewers sd"
proof (induction js arbitrary: st sd)
  case Nil
  then show ?case by simp
next
  case (Cons j js)
  obtain sid uuid now where j: "j = (sid, uuid, now)" by (cases j)
  let ?st = "apply_op C timespan cfg (RegisterViewer stream sid uuid now) st"
  let ?sd = "sd\<lparr>viewerCount := viewerCount sd + 1\<rparr>"
  have lt: "viewerCount sd < maxViewers sd" using Cons.prems(2) by simp
  have m: "map_of (activeStreams ?st) stream = Some ?sd"
    using Cons.prems(1) lt by (simp add: registerViewer_def Let_def map_of_update_same)
  have "viewerCount ?sd + int (length js) \<le> maxViewers ?sd"
    using Cons.prems(2) by simp
  from Cons.IH [OF m this] show ?case by (simp add: j add.assoc)
qed

text \<open>
  C4. \<open>0 \<le> viewerCount \<le> maxViewers\<close> holds for every record after any sequence of
  calls that change the registry (the configured ceiling is not negative);
  \<open>registerViewer\<close> throws the capacity error exactly for a record whose count has
  reached its ceiling; on a stream just created by \<open>generateToken\<close>, with ceiling \<open>N\<close>,
  \<open>N\<close> joins bring the count to \<open>N\<close> and the next join throws the capacity error; and
  removals, whatever the session ids, leave every count at or above zero.
\<close>

theorem viewerCount_stays_in_bounds:
  assumes "0 \<le> maxConcurrentViewers cfg" and "viewerCountInBounds st"
  shows "viewerCountInBounds (fold (apply_op C timespan cfg) ops st) \<and>
         (registerViewer stream sid uuid now st = Inl MaximumViewerLimitReached \<longleftrightarrow>
            (\<exists>sd. map_of (activeStreams st) stream = Some sd \<and> viewerCount sd = maxViewers sd)) \<and>
         (\<forall>res created.
            generateToken C timespan cfg p t d st = Inr (res, created) \<longrightarrow>
            (let s = issuedStreamId res;
                 joined = fold (\<lambda>(sid, uuid, now).
                                  apply_op C timespan cfg (RegisterViewer s sid uuid now))
                            (map js [0..<nat (maxConcurrentViewers cfg)]) created
             in (\<exists>sd. map_of (activeStreams joined) s = Some sd \<and>
                       viewerCount sd = maxConcurrentViewers cfg \<and>
                       maxViewers sd = maxConcurrentViewers cfg) \<and>
                registerViewer s sid uuid now joined = Inl MaximumViewerLimitReached)) \<and>
         list_all (\<lambda>(stream, sd). 0 \<le> viewerCount sd)
           (activeStreams (fold removeViewer sessIds st))"
proof (intro conjI allI impI)
  show "viewerCountInBounds (fold (apply_op C timespan cfg) ops st)"
    using assms by (rule bounds_fold_apply_op)
next
  have "\<And>sd. map_of (activeStreams st) stream = Some sd \<Longrightarrow> viewerCount sd \<le> maxViewers sd"
    using assms(2) by (auto simp: viewerCountInBounds_def dest: list_all_map_of)
  then show "registerViewer stream sid uuid now st = Inl MaximumViewerLimitReached \<longleftrightarrow>
      (\<exists>sd. map_of (activeStreams st) stream = Some sd \<and> viewerCount sd = maxViewers sd)"
    unfolding registerViewer_capacity_iff by (auto simp: order.antisym)
next
  fix res created
  assume g: "generateToken C timespan cfg p t d st = Inr (res, created)"
  define s where "s = issuedStreamId res"
  define joined where
    "joined = fold (\<lambda>(sid, uuid, now). apply_op C timespan cfg (RegisterViewer s sid uuid now))
                (map js [0..<nat (maxConcurrentViewers cfg)]) created"
  obtain sd0 where sd0: "map_of (activeStreams created) s = Some sd0"
    "viewerCount sd0 = 0" "maxViewers sd0 = maxConcurrentViewers cfg"
    using generateToken_record [OF g] by (simp add: s_def)
  have "viewerCount sd0 + int (length (map js [0..<nat (maxConcurrentViewers cfg)])) \<le> maxViewers sd0"
    using assms(1) sd0 by simp
  from joins_count [OF sd0(1) this, of C timespan cfg]
  obtain sd' where sd': "map_of (activeStreams joined) s = Some sd'"
    "viewerCount sd' = maxConcurrentViewers cfg" "maxViewers sd' = maxConcurrentViewers cfg"
    using assms(1) sd0 by (auto simp: joined_def)
  then have "registerViewer s sid uuid now joined = Inl MaximumViewerLimitReached"
    by (simp add: registerViewer_capacity_iff)
  with sd' show "let s = issuedStreamId res;
                 joined = fold (\<lambda>(sid, uuid, now).
                                  apply_op C timespan cfg (RegisterViewer s sid uuid now))
                            (map js [0..<nat (maxConcurrentViewers cfg)]) created
             in (\<exists>sd. map_of (activeStreams joined) s = Some sd \<and>
                       viewerCount sd = maxConcurrentViewers cfg \<and>
                       maxViewers sd = maxConcurrentViewers cfg) \<and>
                registerViewer s sid uuid now joined = Inl MaximumViewerLimitReached"
    by (simp add: s_def joined_def Let_def)
next
  have "fold removeViewer sessIds st =
        fold (apply_op C timespan cfg) (map RemoveViewer sessIds) st"
    by (induction sessIds arbitrary: st) simp_all
  then have "viewerCountInBounds (fold removeViewer sessIds st)"
    using assms by (simp add: bounds_fold_apply_op)
  then show "list_all (\<lambda>(stream, sd). 0 \<le> viewerCount sd)
               (activeStreams (fold removeViewer sessIds st))"
    by (auto simp: viewerCountInBounds_def list_all_iff)
qed

theorem viewerCount_stays_in_bounds_witness:
  "0 \<le> maxConcurrentViewers smallConfig \<and> viewerCountInBounds stoppedRegistry \<and>
   viewerCountInBounds
     (fold (apply_op checksumCipher minutesTimespan smallConfig)
        [RegisterViewer ''s1'' None ''v3'' 2000, RegisterViewer ''s1'' None ''v4'' 2001,
         RemoveViewer ''v3'', RemoveViewer ''v3'', RemoveViewer ''nobody'',
         GenerateToken minutePayload 2500 firstDraws, CleanupExpiredStreams 3000]
        stoppedRegistry) \<and>
   (registerViewer ''s1'' None ''v3'' 2000 stoppedRegistry = Inl MaximumViewerLimitReached \<longleftrightarrow>
      (\<exists>sd. map_of (activeStreams stoppedRegistry) ''s1'' = Some sd \<and>
            viewerCount sd = maxViewers sd)) \<and>
   (\<exists>res created.
      generateToken checksumCipher minutesTimespan smallConfig minutePayload 2500 firstDraws
        stoppedRegistry = Inr (res, created) \<and>
      issuedStreamId res = ''s1'' \<and>
      registerViewer ''s1'' None ''v7'' 2600
        (fold (\<lambda>(sid, uuid, now).
                 apply_op checksumCipher minutesTimespan smallConfig
                   (RegisterViewer ''s1'' sid uuid now))
           (map (\<lambda>i. (None, ''v5'', 2550)) [0..<nat (maxConcurrentViewers smallConfig)]) created)
      = Inl MaximumViewerLimitReached)"
proof -
  have h1: "0 \<le> maxConcurrentViewers smallConfig"
    by (simp add: smallConfig_def fallbackConfig_def)
  have h2: "viewerCountInBounds stoppedRegistry"
    by (simp add: viewerCountInBounds_def stoppedRegistry_def stoppedRecord_def)
  have "minutesTimespan (chosenExpiryMinutes smallConfig minutePayload) (2500 div 1000) = Some 62"
    by (simp add: minutesTimespan_def chosenExpiryMinutes_def minutePayload_def)
  then obtain res created where
    g: "generateToken checksumCipher minutesTimespan smallConfig minutePayload 2500 firstDraws
          stoppedRegistry = Inr (res, created)"
    unfolding generateToken_Inr_iff by blast
  have s: "issuedStreamId res = ''s1''"
    using generateToken_record(2) [OF g] by (simp add: chosenStreamId_def minutePayload_def)
  note t = viewerCount_stays_in_bounds [OF h1 h2]
  have "registerViewer ''s1'' None ''v7'' 2600
        (fold (\<lambda>(sid, uuid, now).
                 apply_op checksumCipher minutesTimespan smallConfig
                   (RegisterViewer ''s1'' sid uuid now))
           (map (\<lambda>i. (None, ''v5'', 2550)) [0..<nat (maxConcurrentViewers smallConfig)]) created)
      = Inl MaximumViewerLimitReached"
    using t [THEN conjunct2, THEN conjunct2, THEN conjunct1, rule_format, OF g,
             of "\<lambda>i. (None, ''v5'', 2550)" None "''v7''" 2600]
    by (simp add: s Let_def)
  with g s t [THEN conjunct1] t [THEN conjunct2, THEN conjunct1] h1 h2
  show ?thesis by blast
qed

text \<open>
  C10. \<open>registerViewer\<close> never reads \<open>isActive\<close>: for a record in the registry whose
  \<open>viewerCount\<close> is below \<open>maxViewers\<close> it succeeds and stores the record with the count
  raised by one, whatever the flag is; so it does directly after \<open>stopStream\<close>, where
  the flag is \<open>False\<close>.
\<close>

theorem registerViewer_ignores_isActive:
  assumes "map_of (activeStreams st) stream = Some sd"
    and "viewerCount sd < maxViewers sd"
  shows "(\<exists>sess st'.
            registerViewer stream sid uuid now st = Inr (sess, st') \<and>
            map_of (activeStreams st') stream = Some (sd\<lparr>viewerCount := viewerCount sd + 1\<rparr>)) \<and>
         (\<exists>sess st' sd'.
            map_of (activeStreams (snd (stopStream stream uuid' now' st))) stream = Some sd' \<and>
            \<not> isActive sd' \<and>
            registerViewer stream sid uuid now (snd (stopStream stream uuid' now' st)) = Inr (sess, st') \<and>
            map_of (activeStreams st') stream = Some (sd'\<lparr>viewerCount := viewerCount sd + 1\<rparr>))"
  using assms
  by (simp add: registerViewer_def stopStream_def Let_def map_of_update_same)

theorem registerViewer_ignores_isActive_witness:
  "map_of (activeStreams stoppedRegistry) ''s1'' = Some stoppedRecord \<and>
   viewerCount stoppedRecord < maxViewers stoppedRecord \<and>
   \<not> isActive stoppedRecord \<and>
   (\<exists>sess st'.
      registerViewer ''s1'' None ''v3'' 2000 stoppedRegistry = Inr (sess, st') \<and>
      map_of (activeStreams st') ''s1'' = Some (stoppedRecord\<lparr>viewerCount := 3\<rparr>))"
proof -
  have a: "map_of (activeStreams stoppedRegistry) ''s1'' = Some stoppedRecord"
    by (simp add: stoppedRegistry_def)
  have b: "viewerCount stoppedRecord < maxViewers stoppedRecord"
    by (simp add: stoppedRecord_def)
  have c: "\<not> isActive stoppedRecord" "viewerCount stoppedRecord + 1 = 3"
    by (simp_all add: stoppedRecord_def)
  from registerViewer_ignores_isActive [OF a b, of None "''v3''" 2000 "''j3''" 1500] a b c
  show ?thesis by simp
qed

subsection \<open>The active flag\<close>

lemma cleanupLoop_streams:
  "activeStreams (snd (cleanupLoop todo now st n)) =
   filter (\<lambda>(stream, sd). \<forall>e \<in> set todo. fst e = stream \<longrightarrow> \<not> (dateBefore (expiresAt (snd e)) now \<or> \<not> isActive (snd e)))
     (activeStreams st)"
proof (induction todo arbitrary: st n)
  case Nil
  then show ?case by simp
next
  case (Cons e todo)
  obtain stream sd where e: "e = (stream, sd)" by (cases e)
  show ?case
  proof (cases "dateBefore (expiresAt sd) now \<or> \<not> isActive sd")
    case True
    have "activeStreams (snd (cleanupLoop (e # todo) now st n)) =
       filter (\<lambda>(stream, sd). \<forall>e \<in> set todo. fst e = stream \<longrightarrow> \<not> (dateBefore (expiresAt (snd e)) now \<or> \<not> isActive (snd e)))
         (filter (\<lambda>(k, _). stream \<noteq> k) (activeStreams st))"
      using True by (simp add: e Cons.IH AList.delete_eq del: disj_not1)
    also have "\<dots> = filter (\<lambda>(stream, sd). \<forall>e \<in> set (e # todo). fst e = stream \<longrightarrow> \<not> (dateBefore (expiresAt (snd e)) now \<or> \<not> isActive (snd e)))
     (activeStreams st)"
      unfolding filter_filter using True by (intro filter_cong) (auto simp: e)
    finally show ?thesis .
  next
    case False
    then show ?thesis by (simp add: e Cons.IH del: disj_not1) 
  qed
qed

lemma map_of_filter_key:
  "map_of (filter (\<lambda>(k, v). Q k) al) s = (if Q s then map_of al s else None)"
  by (induction al) auto

lemma map_of_update_other: "k \<noteq> s \<Longrightarrow> map_of (AList.update k v al) s = map_of al s"
  by (simp add: update_conv')

lemma record_after_registerViewer:
  "registerViewer stream sid uuid now st = Inr (sess, st') \<Longrightarrow>
   map_of (activeStreams st') s = map_of (activeStreams st) s \<or>
   (\<exists>sd n. map_of (activeStreams st) s = Some sd \<and>
           map_of (activeStreams st') s = Some (sd\<lparr>viewerCount := n\<rparr>))"
  by (cases "stream = s")
     (auto simp: registerViewer_def Let_def map_of_update_same map_of_update_other
           split: option.splits if_splits)

lemma record_after_removeViewer:
  "map_of (activeStreams (removeViewer sessId st)) s = map_of (activeStreams st) s \<or>
   (\<exists>sd n. map_of (activeStreams st) s = Some sd \<and>
           map_of (activeStreams (removeViewer sessId st)) s = Some (sd\<lparr>viewerCount := n\<rparr>))"
proof (cases "map_of (viewerSessions st) sessId")
  case None
  then show ?thesis by (simp add: removeViewer_def)
next
  case (Some sess)
  then show ?thesis
    by (cases "sessionStreamId sess = s")
       (auto simp: removeViewer_def Let_def map_of_update_same map_of_update_other
             split: option.splits)
qed

lemma record_after_cleanup:
  "map_of (activeStreams (snd (cleanupExpiredStreams now st))) s = None \<or>
   map_of (activeStreams (snd (cleanupExpiredStreams now st))) s = map_of (activeStreams st) s"
  unfolding cleanupExpiredStreams_def cleanupLoop_streams map_of_filter_key by simp

lemma record_after_stopStream:
  "map_of (activeStreams (snd (stopStream stream uuid now st))) s =
     (if stream = s
      then map_option (\<lambda>sd. sd\<lparr>isActive := False, stoppedAt := Some now, tokenJti := uuid\<rparr>)
             (map_of (activeStreams st) s)
      else map_of (activeStreams st) s)"
  by (auto simp: stopStream_def map_of_update_same map_of_update_other split: option.splits)

lemma record_after_generateToken:
  "generateToken C timespan cfg p t d st = Inr (res, st') \<Longrightarrow> chosenStreamId p d \<noteq> s \<Longrightarrow>
   map_of (activeStreams st') s = map_of (activeStreams st) s"
  unfolding generateToken_Inr_iff by (auto simp: map_of_update_other)



lemma first_issue:
  "generateToken checksumCipher minutesTimespan fallbackConfig minutePayload 0 firstDraws
     emptyRegistry = Inr (firstIssued, firstRegistry)"
  by (simp add: generateToken_Inr_iff minutesTimespan_def chosenExpiryMinutes_def
        chosenStreamId_def minutePayload_def firstDraws_def fallbackConfig_def emptyRegistry_def
        firstIssued_def firstToken_def firstClaims_def firstRegistry_def firstRecord_def
        newDate_def)




text \<open>
  A record whose \<open>expiresAt\<close> is an Invalid Date is never seen as expired: issued with
  the expiry of \<open>farPayload\<close>, the stream stays in the registry through every run of
  \<open>cleanupExpiredStreams\<close>, whatever the time, until it is stopped.
\<close>

lemma invalid_date_record_is_kept:
  "\<exists>res created.
     generateToken checksumCipher minutesTimespan fallbackConfig farPayload 0 secondDraws
       emptyRegistry = Inr (res, created) \<and>
     issuedExpiresAt res = InvalidDate \<and>
     (\<forall>now. cleanupExpiredStreams now created = (0, created))"
  by (simp add: generateToken_Inr_iff minutesTimespan_def chosenExpiryMinutes_def
        chosenStreamId_def farPayload_def emptyRegistry_def newDate_def
        cleanupExpiredStreams_def dateBefore_def)

subsection \<open>Revocation\<close>

lemma validateToken_stopped:
  assumes "map_of (activeStreams st) s = Some sd" and "claimStreamId c = s"
  shows "validateToken cfg (Signed k c) t (snd (stopStream s uuid t1 st)) =
           (case jwt_verify cfg (Signed k c) t of Inl e \<Rightarrow> Inl e | Inr c' \<Rightarrow> Inl StreamStopped)"
proof (cases "jwt_verify cfg (Signed k c) t")
  case (Inl e)
  then show ?thesis by (simp add: validateToken_def)
next
  case (Inr c')
  then have "c' = c" by (auto simp: jwt_verify_def split: if_splits)
  with Inr assms show ?thesis
    by (simp add: validateToken_def stopStream_def map_of_update_same)
qed

lemma validateToken_reissued_old:
  assumes "generateToken C timespan cfg p t d st = Inr (res, st')"
    and "claimStreamId c = chosenStreamId p d" and "drawnJti d \<noteq> jti c"
  shows "validateToken cfg (Signed k c) t' st' =
           (case jwt_verify cfg (Signed k c) t' of Inl e \<Rightarrow> Inl e | Inr c' \<Rightarrow> Inl TokenRevoked)"
proof (cases "jwt_verify cfg (Signed k c) t'")
  case (Inl e)
  then show ?thesis by (simp add: validateToken_def)
next
  case (Inr c')
  then have "c' = c" by (auto simp: jwt_verify_def split: if_splits)
  with Inr assms(2,3) show ?thesis
    using generateToken_record(1) [OF assms(1)]
    by (auto simp: validateToken_def)
qed

lemma validateToken_reissued_new:
  assumes "generateToken C timespan cfg p t d st = Inr (res, st')"
  shows "\<exists>e. timespan (chosenExpiryMinutes cfg p) (t div 1000) = Some e \<and>
             (valid (validateToken cfg (issuedToken res) t' st') \<longleftrightarrow> t' div 1000 < e)"
  using assms unfolding generateToken_Inr_iff
  by (auto simp: validateToken_def jwt_verify_def valid_def map_of_update_same)

lemma refusedAt_apply_op:
  assumes "refusedAt s j st" and "\<not> drawsJti j op"
  shows "refusedAt s j (apply_op C timespan cfg op st)"
proof (cases op)
  case (GenerateToken p t d)
  show ?thesis
  proof (cases "generateToken C timespan cfg p t d st")
    case (Inl e)
    then show ?thesis using assms(1) GenerateToken by simp
  next
    case (Inr r)
    obtain res st' where r: "r = (res, st')" by (cases r)
    note g = Inr [unfolded r]
    show ?thesis
    proof (cases "chosenStreamId p d = s")
      case True
      then show ?thesis
        using assms(2) GenerateToken g generateToken_record(1) [OF g]
        by (simp add: refusedAt_def)
    next
      case False
      then show ?thesis
        using assms(1) GenerateToken g record_after_generateToken [OF g False]
        by (simp add: refusedAt_def)
    qed
  qed
next
  case (StopStream stream uuid now)
  then show ?thesis
    using assms(1) by (auto simp: refusedAt_def record_after_stopStream split: option.splits)
next
  case (RegisterViewer stream sid uuid now)
  show ?thesis
  proof (cases "registerViewer stream sid uuid now st")
    case (Inl e)
    then show ?thesis using assms(1) RegisterViewer by simp
  next
    case (Inr r)
    obtain sess st' where r: "r = (sess, st')" by (cases r)
    from record_after_registerViewer [OF Inr [unfolded r], of s]
    show ?thesis using assms(1) RegisterViewer Inr r
      by (auto simp: refusedAt_def)
  qed
next
  case (RemoveViewer sessId)
  from record_after_removeViewer [of sessId st s]
  show ?thesis using assms(1) RemoveViewer by (auto simp: refusedAt_def)
next
  case (CleanupExpiredStreams now)
  from record_after_cleanup [of now st s]
  show ?thesis using assms(1) CleanupExpiredStreams by (auto simp: refusedAt_def)
qed

lemma refusedAt_fold:
  "refusedAt s j st \<Longrightarrow> list_all (\<lambda>op. \<not> drawsJti j op) ops \<Longrightarrow>
   refusedAt s j (fold (apply_op C timespan cfg) ops st)"
  by (induction ops arbitrary: st) (simp_all add: refusedAt_apply_op)

lemma refusedAt_not_valid:
  "refusedAt (claimStreamId c) (jti c) st \<Longrightarrow> \<not> valid (validateToken cfg (Signed k c) t st)"
  by (auto simp: refusedAt_def validateToken_def valid_def jwt_verify_def
           split: sum.splits option.splits if_splits)

lemma refusedAt_stopStream: "refusedAt s j (snd (stopStream s uuid now st))"
  by (auto simp: refusedAt_def record_after_stopStream split: option.splits)

text \<open>
  C1, as the code has it. For a stream \<open>s\<close> in the registry and a token of that stream:
  after \<open>stopStream s\<close> the token is never valid; \<open>validateToken\<close> returns the error of
  \<open>jwt.verify\<close> where the token fails there (expired, wrong signature, audience or
  issuer), and \<open>Stream has been stopped\<close> otherwise. After \<open>generateToken\<close> has issued a
  token for \<open>s\<close> again, with a \<open>jti\<close> that differs from the old token's, the old token is
  still never valid (the error of \<open>jwt.verify\<close>, and \<open>Token has been revoked\<close>
  otherwise), and the new token is valid exactly until its own expiry, the \<open>exp\<close> that
  \<open>jwt.sign\<close> gave it. The old token stays invalid through every later sequence of
  calls in which no \<open>generateToken\<close> draws the old token's \<open>jti\<close> again.
\<close>

theorem stop_revokes_earlier_tokens:
  assumes "map_of (activeStreams st) s = Some sd"
    and "claimStreamId c = s"
    and "payloadStreamId p = Some s" and "s \<noteq> []"
    and "drawnJti d \<noteq> jti c"
    and "list_all (\<lambda>op. \<not> drawsJti (jti c) op) ops"
  shows "validateToken cfg (Signed k c) t2 (snd (stopStream s uuid t1 st)) =
           (case jwt_verify cfg (Signed k c) t2 of
              Inl e \<Rightarrow> Inl e | Inr c' \<Rightarrow> Inl StreamStopped) \<and>
         \<not> valid (validateToken cfg (Signed k c) t2 (snd (stopStream s uuid t1 st))) \<and>
         (\<forall>res reissued.
            generateToken C timespan cfg p t3 d (snd (stopStream s uuid t1 st)) = Inr (res, reissued)
            \<longrightarrow>
            validateToken cfg (Signed k c) t4 reissued =
              (case jwt_verify cfg (Signed k c) t4 of
                 Inl e \<Rightarrow> Inl e | Inr c' \<Rightarrow> Inl TokenRevoked) \<and>
            \<not> valid (validateToken cfg (Signed k c) t4 reissued) \<and>
            (\<exists>e. timespan (chosenExpiryMinutes cfg p) (t3 div 1000) = Some e \<and>
                 (valid (validateToken cfg (issuedToken res) t4 reissued) \<longleftrightarrow>
                    t4 div 1000 < e))) \<and>
         \<not> valid (validateToken cfg (Signed k c) t5
                    (fold (apply_op C timespan cfg) ops (snd (stopStream s uuid t1 st))))"
proof (intro conjI allI impI)
  have sid: "chosenStreamId p d = s"
    using assms(3,4) by (simp add: chosenStreamId_def)
  note a = validateToken_stopped [OF assms(1,2), of cfg k t2 uuid t1]
  show "validateToken cfg (Signed k c) t2 (snd (stopStream s uuid t1 st)) =
           (case jwt_verify cfg (Signed k c) t2 of
              Inl e \<Rightarrow> Inl e | Inr c' \<Rightarrow> Inl StreamStopped)"
    by (rule a)
  show "\<not> valid (validateToken cfg (Signed k c) t2 (snd (stopStream s uuid t1 st)))"
    unfolding a by (simp add: valid_def split: sum.splits)
  have "refusedAt (claimStreamId c) (jti c)
          (fold (apply_op C timespan cfg) ops (snd (stopStream s uuid t1 st)))"
    unfolding assms(2) using refusedAt_stopStream assms(6) by (rule refusedAt_fold)
  then show "\<not> valid (validateToken cfg (Signed k c) t5
                    (fold (apply_op C timespan cfg) ops (snd (stopStream s uuid t1 st))))"
    by (rule refusedAt_not_valid)
  fix res reissued
  assume g: "generateToken C timespan cfg p t3 d (snd (stopStream s uuid t1 st)) = Inr (res, reissued)"
  have b: "validateToken cfg (Signed k c) t4 reissued =
           (case jwt_verify cfg (Signed k c) t4 of
              Inl e \<Rightarrow> Inl e | Inr c' \<Rightarrow> Inl TokenRevoked)"
    using assms(2,5) sid by (intro validateToken_reissued_old [OF g]) simp_all
  show "validateToken cfg (Signed k c) t4 reissued =
           (case jwt_verify cfg (Signed k c) t4 of
              Inl e \<Rightarrow> Inl e | Inr c' \<Rightarrow> Inl TokenRevoked)"
    by (rule b)
  show "\<not> valid (validateToken cfg (Signed k c) t4 reissued)"
    unfolding b by (simp add: valid_def split: sum.splits)
  show "\<exists>e. timespan (chosenExpiryMinutes cfg p) (t3 div 1000) = Some e \<and>
            (valid (validateToken cfg (issuedToken res) t4 reissued) \<longleftrightarrow> t4 div 1000 < e)"
    by (rule validateToken_reissued_new [OF g])
qed

theorem stop_revokes_earlier_tokens_witness:
  "map_of (activeStreams firstRegistry) ''s1'' = Some firstRecord \<and>
   claimStreamId firstClaims = ''s1'' \<and>
   payloadStreamId minutePayload = Some ''s1'' \<and>
   drawnJti secondDraws \<noteq> jti firstClaims \<and>
   list_all (\<lambda>op. \<not> drawsJti (jti firstClaims) op)
     [CleanupExpiredStreams 2000, GenerateToken minutePayload 20000 secondDraws] \<and>
   validateToken fallbackConfig firstToken 30000
     (snd (stopStream ''s1'' ''j2'' 1000 firstRegistry)) = Inl StreamStopped \<and>
   (\<exists>res reissued.
      generateToken checksumCipher minutesTimespan fallbackConfig minutePayload 20000 secondDraws
        (snd (stopStream ''s1'' ''j2'' 1000 firstRegistry)) = Inr (res, reissued) \<and>
      validateToken fallbackConfig firstToken 30000 reissued = Inl TokenRevoked \<and>
      valid (validateToken fallbackConfig (issuedToken res) 30000 reissued)) \<and>
   \<not> valid (validateToken fallbackConfig firstToken 30000
              (fold (apply_op checksumCipher minutesTimespan fallbackConfig)
                 [CleanupExpiredStreams 2000, GenerateToken minutePayload 20000 secondDraws]
                 (snd (stopStream ''s1'' ''j2'' 1000 firstRegistry))))"
proof -
  have h1: "map_of (activeStreams firstRegistry) ''s1'' = Some firstRecord"
    by (simp add: firstRegistry_def)
  have h2: "claimStreamId firstClaims = ''s1''" by (simp add: firstClaims_def)
  have h3: "payloadStreamId minutePayload = Some ''s1''" by (simp add: minutePayload_def)
  have h4: "''s1'' \<noteq> []" by simp
  have h5: "drawnJti secondDraws \<noteq> jti firstClaims"
    by (simp add: secondDraws_def firstClaims_def)
  have h6: "list_all (\<lambda>op. \<not> drawsJti (jti firstClaims) op)
              [CleanupExpiredStreams 2000, GenerateToken minutePayload 20000 secondDraws]"
    by (simp add: secondDraws_def firstClaims_def)
  have k: "firstToken = Signed (secret fallbackConfig) firstClaims"
    by (simp add: firstToken_def fallbackConfig_def)
  have v: "jwt_verify fallbackConfig firstToken 30000 = Inr firstClaims"
    by (simp add: k jwt_verify_def firstClaims_def fallbackConfig_def)
  have e: "minutesTimespan (chosenExpiryMinutes fallbackConfig minutePayload) (20000 div 1000)
             = Some 80"
    by (simp add: minutesTimespan_def chosenExpiryMinutes_def minutePayload_def)
  then obtain res reissued where
    g: "generateToken checksumCipher minutesTimespan fallbackConfig minutePayload 20000 secondDraws
          (snd (stopStream ''s1'' ''j2'' 1000 firstRegistry)) = Inr (res, reissued)"
    unfolding generateToken_Inr_iff by blast
  note t = stop_revokes_earlier_tokens [OF h1 h2 h3 h4 h5 h6, of fallbackConfig
      "secret fallbackConfig" 30000 "''j2''" 1000 checksumCipher minutesTimespan 20000 30000 30000,
      folded k]
  note u = t [THEN conjunct2, THEN conjunct2, THEN conjunct1, rule_format, OF g]
  have "validateToken fallbackConfig firstToken 30000
     (snd (stopStream ''s1'' ''j2'' 1000 firstRegistry)) = Inl StreamStopped"
    using t [THEN conjunct1] by (simp add: v)
  moreover have "validateToken fallbackConfig firstToken 30000 reissued = Inl TokenRevoked"
    using u [THEN conjunct1] by (simp add: v)
  moreover have "valid (validateToken fallbackConfig (issuedToken res) 30000 reissued)"
    using u [THEN conjunct2, THEN conjunct2] e by auto
  moreover note g h1 h2 h3 h5 h6 t [THEN conjunct2, THEN conjunct2, THEN conjunct2]
  ultimately show ?thesis by blast
qed

text \<open>
  C1 as stated fails for a token that has expired: issued at time 0 for one minute,
  stopped after one second and validated after 61 seconds, the token is refused with
  \<open>jwt expired\<close>, which is neither \<open>Token has been revoked\<close> nor
  \<open>Stream has been stopped\<close>.
\<close>

theorem expired_token_after_stop:
  "generateToken checksumCipher minutesTimespan fallbackConfig minutePayload 0 firstDraws
     emptyRegistry = Inr (firstIssued, firstRegistry) \<and>
   issuedToken firstIssued = firstToken \<and>
   validateToken fallbackConfig firstToken 61000
     (snd (stopStream ''s1'' ''j2'' 1000 firstRegistry)) = Inl JwtExpired"
  using first_issue
  by (simp add: firstIssued_def firstToken_def firstClaims_def fallbackConfig_def
        validateToken_def jwt_verify_def)

section \<open>Properties of the segment cache\<close>

lemma cachedBytes_nonneg: "0 \<le> cachedBytes entries"
  by (induction entries) (auto simp: cachedBytes_def)

lemma cachedBytes_delete: "cachedBytes (AList.delete k entries) \<le> cachedBytes entries"
  by (induction entries) (auto simp: cachedBytes_def)

lemma cachedBytes_update:
  "cachedBytes (AList.update k e entries) \<le> cachedBytes entries + int (length (data e))"
  by (induction entries) (auto simp: cachedBytes_def)

lemma evictLoop_result:
  assumes "cachedBytes entries \<le> current" and "evictLoop len entries current = (entries', current')"
  shows "cachedBytes entries' \<le> current' \<and> (entries' = [] \<or> current' + int len \<le> CACHE_MAX_SIZE)"
  using assms
proof (induction len entries current rule: evictLoop.induct)
  case (1 len current)
  then show ?case by simp
next
  case (2 len oldestKey oldestEntry rest current)
  show ?case
  proof (cases "CACHE_MAX_SIZE < current + int len")
    case True
    have "cachedBytes (AList.delete oldestKey ((oldestKey, oldestEntry) # rest))
            \<le> current - int (length (data oldestEntry))"
      using "2.prems"(1) cachedBytes_delete [of oldestKey rest] by (simp add: cachedBytes_def)
    with "2.IH" [OF True] "2.prems"(2) True show ?thesis by simp
  next
    case False
    with "2.prems" show ?thesis by auto
  qed
qed

text \<open>
  When the payload itself fits under the ceiling, and the counter is not below the bytes
  resident (as it is for the empty cache and stays), one \<open>cacheSegment\<close> leaves the
  resident bytes at or below the ceiling.
\<close>

lemma cacheSegment_bound_when_payload_fits:
  assumes "cachedBytes (segmentCache st) \<le> currentCacheSize st"
    and "int (length bytes) \<le> CACHE_MAX_SIZE"
  shows "cachedBytes (segmentCache (cacheSegment key bytes now st)) \<le> CACHE_MAX_SIZE \<and>
         cachedBytes (segmentCache (cacheSegment key bytes now st))
           \<le> currentCacheSize (cacheSegment key bytes now st)"
proof -
  obtain entries current where
    ev: "evictLoop (length bytes) (segmentCache st) (currentCacheSize st) = (entries, current)"
    by (cases "evictLoop (length bytes) (segmentCache st) (currentCacheSize st)")
  from evictLoop_result [OF assms(1) ev]
  have r: "cachedBytes entries \<le> current" "entries = [] \<or> current + int (length bytes) \<le> CACHE_MAX_SIZE"
    by simp_all
  let ?e = "\<lparr>data = bytes, timestamp = now\<rparr>"
  have u: "cachedBytes (AList.update key ?e entries) \<le> cachedBytes entries + int (length bytes)"
    using cachedBytes_update [of key ?e entries] by simp
  have "cachedBytes (AList.update key ?e entries) \<le> CACHE_MAX_SIZE"
  proof (cases "entries = []")
    case True
    then show ?thesis using assms(2) by (simp add: cachedBytes_def)
  next
    case False
    with r u show ?thesis by simp
  qed
  moreover have "cachedBytes (AList.update key ?e entries) \<le> current + int (length bytes)"
    using r u by simp
  ultimately show ?thesis by (simp add: cacheSegment_def ev)
qed

text \<open>
  So the bound holds along every sequence of calls whose payloads each fit under the
  ceiling.
\<close>

lemma cacheSegment_sequence_bound:
  assumes "list_all (\<lambda>(key, bytes, now). int (length bytes) \<le> CACHE_MAX_SIZE) puts"
    and "cachedBytes (segmentCache st) \<le> currentCacheSize st"
    and "cachedBytes (segmentCache st) \<le> CACHE_MAX_SIZE"
  shows "cachedBytes (segmentCache (fold (\<lambda>(key, bytes, now). cacheSegment key bytes now) puts st))
           \<le> CACHE_MAX_SIZE"
  using assms
proof (induction puts arbitrary: st)
  case Nil
  then show ?case by simp
next
  case (Cons put puts)
  obtain key bytes now where put: "put = (key, bytes, now)" by (cases put)
  have fits: "int (length bytes) \<le> CACHE_MAX_SIZE" using Cons.prems(1) put by simp
  from cacheSegment_bound_when_payload_fits [OF Cons.prems(2) fits, of key now]
  show ?case using Cons.IH [of "cacheSegment key bytes now st"] Cons.prems(1) put by simp
qed

text \<open>
  With one entry per key and an exact counter before the call, a \<open>cacheSegment\<close> under a
  key that is not in the cache keeps the counter exact.
\<close>

lemma update_new_key: "key \<notin> fst ` set al \<Longrightarrow> AList.update key v al = al @ [(key, v)]"
  by (induction al) auto

lemma evictLoop_exact:
  assumes "distinct (map fst entries)" and "cachedBytes entries = current"
    and "evictLoop len entries current = (entries', current')"
  shows "distinct (map fst entries') \<and> cachedBytes entries' = current' \<and>
         fst ` set entries' \<subseteq> fst ` set entries"
  using assms
proof (induction len entries current rule: evictLoop.induct)
  case (1 len current)
  then show ?case by simp
next
  case (2 len oldestKey oldestEntry rest current)
  show ?case
  proof (cases "CACHE_MAX_SIZE < current + int len")
    case True
    have d: "AList.delete oldestKey ((oldestKey, oldestEntry) # rest) = rest"
      using "2.prems"(1) by (simp add: AList.delete_id)
    have "distinct (map fst rest)" "cachedBytes rest = current - int (length (data oldestEntry))"
      using "2.prems"(1,2) by (simp_all add: cachedBytes_def)
    with "2.IH" [OF True] "2.prems"(3) True d show ?thesis by auto
  next
    case False
    with "2.prems" show ?thesis by auto
  qed
qed

lemma cacheSegment_exact_for_new_key:
  assumes "distinct (map fst (segmentCache st))"
    and "cachedBytes (segmentCache st) = currentCacheSize st"
    and "key \<notin> fst ` set (segmentCache st)"
  shows "cachedBytes (segmentCache (cacheSegment key bytes now st)) =
           currentCacheSize (cacheSegment key bytes now st) \<and>
         distinct (map fst (segmentCache (cacheSegment key bytes now st)))"
proof -
  obtain entries current where
    ev: "evictLoop (length bytes) (segmentCache st) (currentCacheSize st) = (entries, current)"
    by (cases "evictLoop (length bytes) (segmentCache st) (currentCacheSize st)")
  from evictLoop_exact [OF assms(1,2) ev]
  have r: "distinct (map fst entries)" "cachedBytes entries = current"
    "fst ` set entries \<subseteq> fst ` set (segmentCache st)" by simp_all
  have new: "key \<notin> fst ` set entries" using r(3) assms(3) by auto
  show ?thesis
    using r(1,2) new
    by (simp add: cacheSegment_def ev update_new_key cachedBytes_def)
qed

text \<open>
  C5 fails on the code. One \<open>cacheSegment\<close> with a payload of 52428801 bytes, one byte
  more than \<open>CACHE_MAX_SIZE\<close>, on the empty cache: the loop has nothing to evict, the
  entry is stored, and the bytes resident are above the ceiling.
\<close>

theorem cacheSegment_oversized_payload:
  "cachedBytes (segmentCache (cacheSegment ''k'' (replicate 52428801 0) 0 emptyCache)) = 52428801 \<and>
   CACHE_MAX_SIZE = 52428800"
  by (simp add: cacheSegment_def emptyCache_def cachedBytes_def CACHE_MAX_SIZE_def)

text \<open>
  C6 fails on the code. Two \<open>cacheSegment\<close> calls with the same key and a one-byte
  payload: the second replaces the entry of the first, the counter goes up both times.
  The counter is 2, the bytes resident are 1.
\<close>

theorem cacheSegment_overwrite_counts_twice:
  "currentCacheSize (cacheSegment ''k'' [1] 1 (cacheSegment ''k'' [0] 0 emptyCache)) = 2 \<and>
   cachedBytes (segmentCache (cacheSegment ''k'' [1] 1 (cacheSegment ''k'' [0] 0 emptyCache))) = 1"
  by (simp add: cacheSegment_def emptyCache_def cachedBytes_def CACHE_MAX_SIZE_def)

section \<open>Properties of the URL cipher\<close>

lemma unat_byte_less: "unat (b :: byte) < 256"
  using unsigned_less [of b, where 'a = nat] by simp

lemma unhex_hexDigit: "n < 16 \<Longrightarrow> unhex (hexDigit n) = Some n"
  by (auto simp: unhex_def hexDigit_def Let_def)

lemma unhex_less: "unhex c = Some v \<Longrightarrow> v < 16"
  by (auto simp: unhex_def Let_def split: if_splits)

lemma unhex_colon: "unhex CHR '':'' = None"
  by (simp add: unhex_def)

lemma high_nibble_less: "unat (b :: byte) div 16 < 16"
  using unat_byte_less [of b] by (simp add: div_less_iff_less_mult)

lemma unhex_nibbles:
  "unhex (hexDigit (unat (b :: byte) div 16)) = Some (unat b div 16)"
  "unhex (hexDigit (unat (b :: byte) mod 16)) = Some (unat b mod 16)"
  by (simp_all add: unhex_hexDigit high_nibble_less)

lemma colon_notin_toHex: "CHR '':'' \<notin> set (toHex bs)"
proof (induction bs)
  case Nil
  then show ?case by simp
next
  case (Cons b bs)
  have "hexDigit (unat b div 16) \<noteq> CHR '':''" "hexDigit (unat b mod 16) \<noteq> CHR '':''"
    using unhex_nibbles [of b] unhex_colon by auto
  with Cons show ?case by auto
qed

lemma length_toHex: "length (toHex bs) = 2 * length bs"
  by (induction bs) simp_all

lemma fromHex_toHex: "fromHex (toHex bs) = bs"
  by (induction bs) (simp_all add: unhex_nibbles)

lemma split_on_not_Nil: "split_on sep xs \<noteq> []"
  by (induction xs) (auto split: list.splits)

lemma split_on_no_sep: "sep \<notin> set xs \<Longrightarrow> split_on sep xs = [xs]"
  by (induction xs) auto

lemma split_on_append: "sep \<notin> set xs \<Longrightarrow> split_on sep (xs @ sep # ys) = xs # split_on sep ys"
  by (induction xs) auto

lemma split_ciphertext:
  assumes "CHR '':'' \<notin> set a" "CHR '':'' \<notin> set b" "CHR '':'' \<notin> set c"
  shows "split_on CHR '':'' (a @ CHR '':'' # b @ CHR '':'' # c) = [a, b, c]"
  using assms by (simp add: split_on_append split_on_no_sep)

lemma fromHex_toHex_update:
  assumes "j < 2 * length bs" and "unhex c = Some v" and "unhex (toHex bs ! j) \<noteq> Some v"
  shows "\<exists>b. b \<noteq> bs ! (j div 2) \<and> fromHex ((toHex bs)[j := c]) = bs[j div 2 := b]"
  using assms
proof (induction bs arbitrary: j)
  case Nil
  then show ?case by simp
next
  case (Cons a bs)
  have v: "v < 16" using Cons.prems(2) by (rule unhex_less)
  consider "j = 0" | "j = 1" | j' where "j = Suc (Suc j')"
    by (cases j) (auto, case_tac nat, auto)
  then show ?case
  proof cases
    case 1
    have ne: "v \<noteq> unat a div 16" using Cons.prems(3) 1 by (auto simp: unhex_nibbles)
    let ?b = "of_nat (16 * v + unat a mod 16) :: byte"
    have "unat ?b = (16 * v + unat a mod 16) mod 2 ^ LENGTH(8)" by (rule unat_of_nat)
    also have "\<dots> = 16 * v + unat a mod 16" using v by simp
    finally have "unat ?b = 16 * v + unat a mod 16" .
    moreover have "unat a = 16 * (unat a div 16) + unat a mod 16" by simp
    ultimately have "?b \<noteq> a" using ne by (metis add_right_cancel mult_cancel1 zero_neq_numeral)
    then show ?thesis using 1 Cons.prems(2) by (simp add: unhex_nibbles fromHex_toHex)
  next
    case 2
    have ne: "v \<noteq> unat a mod 16" using Cons.prems(3) 2 by (auto simp: unhex_nibbles)
    let ?b = "of_nat (16 * (unat a div 16) + v) :: byte"
    have "unat ?b = (16 * (unat a div 16) + v) mod 2 ^ LENGTH(8)" by (rule unat_of_nat)
    also have "\<dots> = 16 * (unat a div 16) + v" using v high_nibble_less [of a] by simp
    finally have "unat ?b = 16 * (unat a div 16) + v" .
    moreover have "unat a = 16 * (unat a div 16) + unat a mod 16" by simp
    ultimately have "?b \<noteq> a" using ne by (metis add_left_cancel)
    then show ?thesis using 2 Cons.prems(2) by (simp add: unhex_nibbles fromHex_toHex)
  next
    case 3
    have "j' < 2 * length bs" "unhex (toHex bs ! j') \<noteq> Some v"
      using Cons.prems 3 by simp_all
    from Cons.IH [OF this(1) Cons.prems(2) this(2)]
    show ?thesis using 3 by (auto simp: unhex_nibbles)
  qed
qed

lemma decryptUrl_parts:
  assumes "CHR '':'' \<notin> set a" "CHR '':'' \<notin> set b" "CHR '':'' \<notin> set e"
  shows "decryptUrl C cfg (a @ CHR '':'' # b @ CHR '':'' # e) =
           (if odd (length e) then Inl FailedToDecrypt
            else case gcmDecrypt C (scryptSync C (secret cfg) ''salt'' 32)
                        (fromHex a) (fromHex b) (fromHex e) of
                   Some decrypted \<Rightarrow> Inr decrypted
                 | None \<Rightarrow> Inl FailedToDecrypt)"
  using assms by (simp add: decryptUrl_def split_ciphertext)

lemma colon_notin_update:
  assumes "unhex c = Some v"
  shows "CHR '':'' \<notin> set ((toHex bs)[j := c])"
proof -
  have "c \<noteq> CHR '':''" using assms unhex_colon by auto
  then show ?thesis
    using colon_notin_toHex [of bs] set_update_subset_insert [of "toHex bs" j c] by auto
qed

lemma unhex_not_colon: "unhex c = Some v \<Longrightarrow> c \<noteq> CHR '':''"
  using unhex_colon by auto

lemma fromHex_toHex_same_digit:
  assumes "j < 2 * length bs" and "unhex c = unhex (toHex bs ! j)"
  shows "fromHex ((toHex bs)[j := c]) = bs"
  using assms
proof (induction bs arbitrary: j)
  case Nil
  then show ?case by simp
next
  case (Cons a bs)
  consider "j = 0" | "j = 1" | j' where "j = Suc (Suc j')"
    by (cases j) (auto, case_tac nat, auto)
  then show ?case
  proof cases
    case 1
    then show ?thesis using Cons.prems by (simp add: unhex_nibbles fromHex_toHex)
  next
    case 2
    then show ?thesis using Cons.prems by (simp add: unhex_nibbles fromHex_toHex)
  next
    case 3
    then show ?thesis using Cons by (simp add: unhex_nibbles)
  qed
qed

lemma decrypt_after_encrypt:
  assumes "gcmEncrypt C (scryptSync C (secret cfg) ''salt'' 32) iv url = (encrypted, authTag)"
    and "gcmDecrypt C (scryptSync C (secret cfg) ''salt'' 32) iv authTag encrypted = Some url"
  shows "decryptUrl C cfg (encryptUrl C cfg iv url) = Inr url"
  using assms
  by (simp add: decryptUrl_def encryptUrl_def Let_def split_ciphertext colon_notin_toHex
        fromHex_toHex length_toHex)

lemma sum_list_update_byte:
  "j < length xs \<Longrightarrow> sum_list (xs[j := b]) = sum_list xs - xs ! j + (b :: byte)"
  by (induction xs arbitrary: j) (auto split: nat.splits)

lemma checksumTag_update:
  "j < length xs \<Longrightarrow> b \<noteq> xs ! j \<Longrightarrow> checksumTag (xs[j := b]) \<noteq> checksumTag xs"
  by (simp add: checksumTag_def sum_list_update_byte)

lemma length_checksumTag: "length (checksumTag bytes) = 16"
  by (simp add: checksumTag_def)

lemma checksumCipher_refuses_tag:
  "length tag' = length (checksumTag bytes) \<Longrightarrow> tag' \<noteq> checksumTag bytes \<Longrightarrow>
   gcmDecrypt checksumCipher key iv tag' bytes = None"
  by (simp add: checksumCipher_def length_checksumTag)

lemma checksumCipher_refuses_byte:
  "j < length bytes \<Longrightarrow> b \<noteq> bytes ! j \<Longrightarrow>
   gcmDecrypt checksumCipher key iv (checksumTag bytes) (bytes[j := b]) = None"
  using checksumTag_update [of j bytes b] by (auto simp: checksumCipher_def length_checksumTag)

lemma checksumCipher_encrypt:
  "gcmEncrypt checksumCipher key iv url =
     (map (\<lambda>c. of_nat (of_char c)) url, checksumTag (map (\<lambda>c. of_nat (of_char c)) url))"
  by (simp add: checksumCipher_def)

lemma checksumCipher_decrypt:
  "gcmDecrypt checksumCipher key iv (checksumTag (map (\<lambda>c. of_nat (of_char c)) url))
     (map (\<lambda>c. of_nat (of_char c)) url) = Some url"
proof -
  have "char_of (unat (of_nat (of_char c) :: byte)) = c" for c
    by (simp add: unat_of_nat)
  then show ?thesis by (simp add: checksumCipher_def comp_def length_checksumTag)
qed

lemmas cipher_eval =
  encryptUrl_def decryptUrl_def checksumCipher_def checksumTag_def hexDigit_def unhex_def
  char_of_def bit_0 firstDraws_def

lemma example_ciphertext:
  "encryptUrl checksumCipher fallbackConfig (drawnIv firstDraws) ''https://origin.example/live/index.m3u8'' =
   ''07070707070707070707070707070707:0e000000000000000000000000000000:68747470733a2f2f6f726967696e2e6578616d706c652f6c6976652f696e6465782e6d337538''"
  by (simp add: cipher_eval)

text \<open>
  C2. Decrypting what \<open>encryptUrl\<close> returns gives the URL back, for every URL and every
  nonce, given that the cipher of \<open>crypto\<close> decrypts what it has just encrypted under
  the same key, nonce and tag.
\<close>

theorem decryptUrl_encryptUrl:
  assumes "gcmEncrypt C (scryptSync C (secret cfg) ''salt'' 32) iv url = (encrypted, authTag)"
    and "gcmDecrypt C (scryptSync C (secret cfg) ''salt'' 32) iv authTag encrypted = Some url"
  shows "decryptUrl C cfg (encryptUrl C cfg iv url) = Inr url"
  using assms by (rule decrypt_after_encrypt)

theorem decryptUrl_encryptUrl_witness:
  "decryptUrl checksumCipher fallbackConfig
     (encryptUrl checksumCipher fallbackConfig (drawnIv firstDraws) ''https://origin.example/live/index.m3u8'') = Inr ''https://origin.example/live/index.m3u8''"
  by (rule decryptUrl_encryptUrl [OF checksumCipher_encrypt checksumCipher_decrypt])

text \<open>
  Changes that are detected, and changes that leave the bytes as they were. A change of
  one character inside the tag or the payload part of a ciphertext that puts a
  hexadecimal digit \<open>c\<close> in place of a digit makes \<open>decryptUrl\<close> fail when the value of
  the digit changes, and returns the URL when it does not, as for the other letter case
  of the same digit. The cipher is assumed to decrypt what it has just encrypted and to
  refuse a tag of the same length that differs and a payload with one changed byte.
\<close>

lemma decryptUrl_changed_digit:
  assumes enc: "gcmEncrypt C (scryptSync C (secret cfg) ''salt'' 32) iv url = (encrypted, authTag)"
    and dec: "gcmDecrypt C (scryptSync C (secret cfg) ''salt'' 32) iv authTag encrypted = Some url"
    and tagAuth: "\<forall>tag'. length tag' = length authTag \<and> tag' \<noteq> authTag \<longrightarrow>
            gcmDecrypt C (scryptSync C (secret cfg) ''salt'' 32) iv tag' encrypted = None"
    and payloadAuth: "\<forall>j b. j < length encrypted \<and> b \<noteq> encrypted ! j \<longrightarrow>
            gcmDecrypt C (scryptSync C (secret cfg) ''salt'' 32) iv authTag (encrypted[j := b]) = None"
    and pos: "2 * length iv < i \<and> i \<le> 2 * length iv + 2 * length authTag \<or>
            2 * length iv + 2 * length authTag + 2 \<le> i \<and> i < length (encryptUrl C cfg iv url)"
    and digit: "unhex c = Some v"
  shows "decryptUrl C cfg ((encryptUrl C cfg iv url)[i := c]) =
           (if unhex (encryptUrl C cfg iv url ! i) = Some v then Inr url else Inl FailedToDecrypt)"
proof -
  let ?s = "toHex iv @ CHR '':'' # toHex authTag @ CHR '':'' # toHex encrypted"
  have s: "encryptUrl C cfg iv url = ?s"
    using enc by (simp add: encryptUrl_def)
  note parts = decryptUrl_parts colon_notin_toHex colon_notin_update [OF digit]
    fromHex_toHex length_toHex
  from pos show ?thesis
  proof
    assume p: "2 * length iv < i \<and> i \<le> 2 * length iv + 2 * length authTag"
    define j where "j = i - 2 * length iv - 1"
    have j: "j < 2 * length authTag" and i: "i = 2 * length iv + Suc j"
      using p unfolding j_def by linarith+
    have upd: "?s[i := c] = toHex iv @ CHR '':'' # (toHex authTag)[j := c] @ CHR '':'' # toHex encrypted"
      using j by (simp add: i list_update_append length_toHex)
    have nth: "?s ! i = toHex authTag ! j"
      using j by (simp add: i nth_append length_toHex)
    show ?thesis
    proof (cases "unhex (toHex authTag ! j) = Some v")
      case True
      then have "fromHex ((toHex authTag)[j := c]) = authTag"
        using fromHex_toHex_same_digit [OF j] digit by simp
      then show ?thesis
        unfolding s upd using True nth dec by (simp add: parts)
    next
      case False
      from fromHex_toHex_update [OF j digit False]
      obtain b where b: "b \<noteq> authTag ! (j div 2)"
        "fromHex ((toHex authTag)[j := c]) = authTag[j div 2 := b]" by blast
      have "authTag[j div 2 := b] \<noteq> authTag"
        using b(1) j by (metis div_less_iff_less_mult mult.commute nth_list_update_eq zero_less_numeral)
      then have "gcmDecrypt C (scryptSync C (secret cfg) ''salt'' 32) iv (authTag[j div 2 := b]) encrypted = None"
        using tagAuth by simp
      then show ?thesis
        unfolding s upd using False nth by (simp add: parts b(2))
    qed
  next
    assume p: "2 * length iv + 2 * length authTag + 2 \<le> i \<and> i < length (encryptUrl C cfg iv url)"
    define j where "j = i - 2 * length iv - 2 * length authTag - 2"
    have j: "j < 2 * length encrypted" and i: "i = 2 * length iv + Suc (2 * length authTag + Suc j)"
      using p unfolding j_def s by (simp_all add: length_toHex) linarith+
    have upd: "?s[i := c] = toHex iv @ CHR '':'' # toHex authTag @ CHR '':'' # (toHex encrypted)[j := c]"
      by (simp add: i list_update_append length_toHex)
    have nth: "?s ! i = toHex encrypted ! j"
      by (simp add: i nth_append length_toHex)
    show ?thesis
    proof (cases "unhex (toHex encrypted ! j) = Some v")
      case True
      then have "fromHex ((toHex encrypted)[j := c]) = encrypted"
        using fromHex_toHex_same_digit [OF j] digit by simp
      then show ?thesis
        unfolding s upd using True nth dec by (simp add: parts)
    next
      case False
      from fromHex_toHex_update [OF j digit False]
      obtain b where b: "b \<noteq> encrypted ! (j div 2)"
        "fromHex ((toHex encrypted)[j := c]) = encrypted[j div 2 := b]" by blast
      have "j div 2 < length encrypted" using j by simp
      then have "gcmDecrypt C (scryptSync C (secret cfg) ''salt'' 32) iv authTag (encrypted[j div 2 := b]) = None"
        using payloadAuth b(1) by simp
      then show ?thesis
        unfolding s upd using False nth by (simp add: parts b(2))
    qed
  qed
qed

text \<open>
  In the ciphertext of the example, character 34 is the digit \<open>e\<close> of the tag and
  character 77 the digit \<open>a\<close> of the payload. Writing either one in upper case changes
  one byte of the ciphertext, the decoded bytes stay the same, and \<open>decryptUrl\<close> returns
  the URL.
\<close>

lemma decryptUrl_accepts_upper_case_digit:
  "encryptUrl checksumCipher fallbackConfig (drawnIv firstDraws) ''https://origin.example/live/index.m3u8'' ! 34 = CHR ''e'' \<and>
   decryptUrl checksumCipher fallbackConfig
     ((encryptUrl checksumCipher fallbackConfig (drawnIv firstDraws) ''https://origin.example/live/index.m3u8'')[34 := CHR ''E''])
   = Inr ''https://origin.example/live/index.m3u8'' \<and>
   encryptUrl checksumCipher fallbackConfig (drawnIv firstDraws) ''https://origin.example/live/index.m3u8'' ! 77 = CHR ''a'' \<and>
   decryptUrl checksumCipher fallbackConfig
     ((encryptUrl checksumCipher fallbackConfig (drawnIv firstDraws) ''https://origin.example/live/index.m3u8'')[77 := CHR ''A''])
   = Inr ''https://origin.example/live/index.m3u8''"
  unfolding example_ciphertext
  by (simp add: decryptUrl_def checksumCipher_def checksumTag_def unhex_def char_of_def bit_0)

text \<open>
  C3 fails on the code. In the ciphertext of the example the tag is the 32 characters
  from character 33 on. With \<open>g\<close>, which is no hexadecimal digit, written over
  character 41, \<open>Buffer.from(authTagHex, 'hex')\<close> stops after four bytes; \<open>decryptUrl\<close>
  passes that tag to \<open>setAuthTag\<close> without a look at its length, the decipher compares
  four bytes, and the URL is returned where the tamper error is due. The same happens
  at character 57, with a tag of twelve bytes.
\<close>

theorem decryptUrl_accepts_truncated_tag:
  "encryptUrl checksumCipher fallbackConfig (drawnIv firstDraws) ''https://origin.example/live/index.m3u8'' ! 41 = CHR ''0'' \<and>
   decryptUrl checksumCipher fallbackConfig
     ((encryptUrl checksumCipher fallbackConfig (drawnIv firstDraws) ''https://origin.example/live/index.m3u8'')[41 := CHR ''g''])
   = Inr ''https://origin.example/live/index.m3u8'' \<and>
   encryptUrl checksumCipher fallbackConfig (drawnIv firstDraws) ''https://origin.example/live/index.m3u8'' ! 57 = CHR ''0'' \<and>
   decryptUrl checksumCipher fallbackConfig
     ((encryptUrl checksumCipher fallbackConfig (drawnIv firstDraws) ''https://origin.example/live/index.m3u8'')[57 := CHR ''g''])
   = Inr ''https://origin.example/live/index.m3u8''"
  unfolding example_ciphertext
  by (simp add: decryptUrl_def checksumCipher_def checksumTag_def unhex_def char_of_def bit_0)

section \<open>Properties of the manifest rewriter\<close>

lemmas text_eval =
  rewriteManifestUrls_def rewriteLine_def trim_def isWhiteSpace_def startsWith_def endsWith_def

text \<open>
  C8. For the playlist \<open>#EXTINF:4.0,\<close> followed by \<open>segment001.ts\<close> and the base URL
  \<open>https://origin.example/live/index.m3u8\<close>: the \<open>#EXTINF\<close> line is kept, the segment
  line becomes the proxy base followed by \<open>/segment?url=\<close> and the URL-encoded
  ciphertext of the resolved URL \<open>https://origin.example/live/segment001.ts\<close>, and
  \<open>decryptUrl\<close> of that ciphertext is the resolved URL. \<open>url.resolve\<close> and the cipher
  belong to Node: the first is assumed to resolve the reference as stated, the second to
  decrypt what it has just encrypted.
\<close>

theorem rewriteManifestUrls_segment_example:
  assumes "url_resolve ''https://origin.example/live/index.m3u8'' ''segment001.ts'' =
             ''https://origin.example/live/segment001.ts''"
    and "gcmEncrypt C (scryptSync C (secret cfg) ''salt'' 32) (randomBytes 0)
           ''https://origin.example/live/segment001.ts'' = (encrypted, authTag)"
    and "gcmDecrypt C (scryptSync C (secret cfg) ''salt'' 32) (randomBytes 0) authTag encrypted =
           Some ''https://origin.example/live/segment001.ts''"
  shows "rewriteManifestUrls C cfg url_resolve randomBytes ''#EXTINF:4.0,\<newline>segment001.ts''
           ''https://origin.example/live/index.m3u8'' proxyBaseUrl encryptedBaseUrl =
         ''#EXTINF:4.0,\<newline>'' @ proxyBaseUrl @ ''/segment?url='' @
           encodeURIComponent
             (encryptUrl C cfg (randomBytes 0) ''https://origin.example/live/segment001.ts'') \<and>
         decryptUrl C cfg
           (encryptUrl C cfg (randomBytes 0) ''https://origin.example/live/segment001.ts'') =
         Inr ''https://origin.example/live/segment001.ts''"
proof
  show "rewriteManifestUrls C cfg url_resolve randomBytes ''#EXTINF:4.0,\<newline>segment001.ts''
           ''https://origin.example/live/index.m3u8'' proxyBaseUrl encryptedBaseUrl =
         ''#EXTINF:4.0,\<newline>'' @ proxyBaseUrl @ ''/segment?url='' @
           encodeURIComponent
             (encryptUrl C cfg (randomBytes 0) ''https://origin.example/live/segment001.ts'')"
    using assms(1) by (simp add: text_eval)
  show "decryptUrl C cfg
           (encryptUrl C cfg (randomBytes 0) ''https://origin.example/live/segment001.ts'') =
         Inr ''https://origin.example/live/segment001.ts''"
    by (rule decrypt_after_encrypt [OF assms(2,3)])
qed

theorem rewriteManifestUrls_segment_example_witness:
  "resolveInDirectory ''https://origin.example/live/index.m3u8'' ''segment001.ts'' =
     ''https://origin.example/live/segment001.ts'' \<and>
   rewriteManifestUrls checksumCipher fallbackConfig resolveInDirectory (\<lambda>n. drawnIv firstDraws)
     ''#EXTINF:4.0,\<newline>segment001.ts'' ''https://origin.example/live/index.m3u8''
     ''http://proxy.example/proxy'' [] =
   ''#EXTINF:4.0,\<newline>http://proxy.example/proxy/segment?url=07070707070707070707070707070707%3A14000000000000000000000000000000%3A68747470733a2f2f6f726967696e2e6578616d706c652f6c6976652f7365676d656e743030312e7473'' \<and>
   decryptUrl checksumCipher fallbackConfig
     (encryptUrl checksumCipher fallbackConfig (drawnIv firstDraws)
        ''https://origin.example/live/segment001.ts'') =
   Inr ''https://origin.example/live/segment001.ts''"
proof -
  have r: "resolveInDirectory ''https://origin.example/live/index.m3u8'' ''segment001.ts'' =
             ''https://origin.example/live/segment001.ts''"
    by (simp add: resolveInDirectory_def)
  have c: "encodeURIComponent
             (encryptUrl checksumCipher fallbackConfig (drawnIv firstDraws)
                ''https://origin.example/live/segment001.ts'') =
           ''07070707070707070707070707070707%3A14000000000000000000000000000000%3A68747470733a2f2f6f726967696e2e6578616d706c652f6c6976652f7365676d656e743030312e7473''"
    by (simp add: cipher_eval isUnreserved_def percentByte_def upperHexDigit_def)
  from rewriteManifestUrls_segment_example
         [of resolveInDirectory checksumCipher fallbackConfig "\<lambda>n. drawnIv firstDraws",
          OF r checksumCipher_encrypt checksumCipher_decrypt,
          of "''http://proxy.example/proxy''" "[]"]
  show ?thesis using r by (simp add: c)
qed

text \<open>
  C7 fails on the code. In the playlist \<open>signedPlaylist\<close> the variant line ends in
  \<open>.m3u8?token=abc\<close>, the initialisation segment is named by an \<open>EXT-X-MAP\<close> tag and the
  media segment ends in \<open>.m4s?v=2\<close>. None of the three is rewritten: the playlist comes
  back as it went in, with its origin URLs, whatever the cipher, the resolver and the
  proxy base are.
\<close>

theorem rewriteManifestUrls_leaves_origin_urls:
  "rewriteManifestUrls C cfg url_resolve randomBytes signedPlaylist
     ''https://origin.example/live/index.m3u8'' proxyBaseUrl encryptedBaseUrl = signedPlaylist"
  by (simp add: signedPlaylist_def text_eval)

end
